theory Spec2Isabelle
  imports Main
begin

section \<open>Python objects and the heap\<close>

text \<open>
  The module \<^verbatim>\<open>scanpy/ann_data.py\<close> works on mutable objects that alias each other:
  a storage array and its views share one element buffer, a record array and its copies
  share one dtype object, a bound table holds a reference to the AnnData that owns it.
  The model therefore keeps every object in an explicit heap, addressed by natural
  numbers, and every operation takes the heap and returns the heap it leaves, both
  when it returns and when it raises.
\<close>

type_synonym addr = nat

text \<open>Scalars stored in arrays, columns and dictionaries. \<open>Unset\<close> stands for an entry
  that no assignment wrote: the memory of a new array, and the default fill value that
  \<^verbatim>\<open>numpy.ma\<close> puts in its place.\<close>

datatype val = IntV int | StrV string | Unset

text \<open>The Python classes the module tells apart, with numpy's and scipy's inheritance:
  \<^verbatim>\<open>MaskedArray\<close>, \<^verbatim>\<open>matrix\<close> and \<^verbatim>\<open>recarray\<close> are subclasses of \<^verbatim>\<open>ndarray\<close>,
  \<^verbatim>\<open>BoundRecArr\<close> (line 25) is a subclass of \<^verbatim>\<open>recarray\<close>.\<close>

datatype pyclass =
    NdArray | MaskedArray | NpMatrix | RecArray | BoundRecArrC | SpMatrix
  | PyList | PyDict | AnnDataC | PyObject

fun py_bases :: "pyclass \<Rightarrow> pyclass list" where
  "py_bases MaskedArray = [MaskedArray, NdArray, PyObject]"
| "py_bases NpMatrix = [NpMatrix, NdArray, PyObject]"
| "py_bases RecArray = [RecArray, NdArray, PyObject]"
| "py_bases BoundRecArrC = [BoundRecArrC, RecArray, NdArray, PyObject]"
| "py_bases PyObject = [PyObject]"
| "py_bases c = [c, PyObject]"

definition py_isinstance :: "pyclass \<Rightarrow> pyclass \<Rightarrow> bool" where
  "py_isinstance c d = (d \<in> set (py_bases c))"

fun class_name :: "pyclass \<Rightarrow> string" where
  "class_name NdArray = ''ndarray''"
| "class_name MaskedArray = ''MaskedArray''"
| "class_name NpMatrix = ''matrix''"
| "class_name RecArray = ''recarray''"
| "class_name BoundRecArrC = ''BoundRecArr''"
| "class_name SpMatrix = ''spmatrix''"
| "class_name PyList = ''list''"
| "class_name PyDict = ''dict''"
| "class_name AnnDataC = ''AnnData''"
| "class_name PyObject = ''object''"

text \<open>The enumeration of lines 13-16, in the order of its members, and the class each
  member has as its value.\<close>

datatype StorageType = Array | Masked | Sparse

fun StorageType_value :: "StorageType \<Rightarrow> pyclass" where
  "StorageType_value Array = NdArray"
| "StorageType_value Masked = MaskedArray"
| "StorageType_value Sparse = SpMatrix"

definition StorageType_members :: "StorageType list" where
  "StorageType_members = [Array, Masked, Sparse]"

definition classes :: "pyclass list" where
  "classes = map StorageType_value StorageType_members"

definition SMP_NAMES :: string where
  "SMP_NAMES = ''smp_names''"

definition VAR_NAMES :: string where
  "VAR_NAMES = ''var_names''"

text \<open>Every \<^verbatim>\<open>raise\<close> of the module and every exception of the library calls it makes
  is one constructor; \<open>OutOfModel\<close> marks a heap that no run of the module produces
  (a reference to no object, or to an object of the wrong kind).\<close>

datatype error =
    ValueError_data_type pyclass "string list"
  | ValueError_not_2d nat
  | ValueError_unpack_shape nat
  | ValueError_meta_type pyclass
  | ValueError_too_many_entries nat nat
  | ValueError_missing_data "string list"
  | ValueError_smp_rows nat nat
  | ValueError_var_rows nat nat
  | ValueError_broadcast nat nat
  | ValueError_no_field string
  | ValueError_duplicate_field
  | ValueError_cannot_delete
  | ValueError_slice_step_zero
  | ValueError_shape_mismatch
  | IndexError_out_of_bounds int nat
  | IndexError_broadcast nat nat
  | IndexError_tuple_index
  | IndexError_invalid_index string
  | IndexError_no_columns
  | KeyError string
  | TypeError_multiple_values string
  | TypeError_no_item_deletion
  | AttributeError string
  | AssertionError
  | OutOfModel

datatype pyexc = ValueError | IndexError | KeyErrorC | TypeError | AttributeErrorC
  | AssertionErrorC | NoException

fun exc_class :: "error \<Rightarrow> pyexc" where
  "exc_class (ValueError_data_type c ns) = ValueError"
| "exc_class (ValueError_not_2d n) = ValueError"
| "exc_class (ValueError_unpack_shape n) = ValueError"
| "exc_class (ValueError_meta_type c) = ValueError"
| "exc_class (ValueError_too_many_entries m n) = ValueError"
| "exc_class (ValueError_missing_data ks) = ValueError"
| "exc_class (ValueError_smp_rows m n) = ValueError"
| "exc_class (ValueError_var_rows m n) = ValueError"
| "exc_class (ValueError_broadcast m n) = ValueError"
| "exc_class (ValueError_no_field k) = ValueError"
| "exc_class ValueError_duplicate_field = ValueError"
| "exc_class ValueError_cannot_delete = ValueError"
| "exc_class ValueError_slice_step_zero = ValueError"
| "exc_class ValueError_shape_mismatch = ValueError"
| "exc_class (IndexError_out_of_bounds i n) = IndexError"
| "exc_class (IndexError_broadcast m n) = IndexError"
| "exc_class IndexError_tuple_index = IndexError"
| "exc_class (IndexError_invalid_index s) = IndexError"
| "exc_class IndexError_no_columns = IndexError"
| "exc_class (KeyError k) = KeyErrorC"
| "exc_class (TypeError_multiple_values k) = TypeError"
| "exc_class TypeError_no_item_deletion = TypeError"
| "exc_class (AttributeError k) = AttributeErrorC"
| "exc_class AssertionError = AssertionErrorC"
| "exc_class OutOfModel = NoException"

text \<open>A storage object: its class, its shape, the buffer it reads and, for each of its
  elements in row-major order, the position of that element in the buffer. A view is a
  second object over the same buffer. \<open>a_names\<close> is \<^verbatim>\<open>X.dtype.names\<close>.\<close>

record ndarr =
  a_cls :: pyclass
  a_shape :: "nat list"
  a_buf :: addr
  a_offs :: "nat list"
  a_names :: "string list option"

text \<open>A record array: the dtype object that names its fields, one column of values per
  field, its length, and the two attributes \<^verbatim>\<open>BoundRecArr.__new__\<close> adds (lines 56-57),
  absent on a plain \<^verbatim>\<open>recarray\<close>, a view or a copy.\<close>

record table =
  t_dtype :: addr
  t_cols :: "val list list"
  t_len :: nat
  t_parent :: "addr option option"
  t_name_col :: "string option"

text \<open>An AnnData instance: each attribute is absent until \<^verbatim>\<open>__init__\<close> assigns it.\<close>

record anndata =
  ad_storage_type :: "StorageType option"
  ad_X :: "addr option"
  ad_smp :: "addr option"
  ad_var :: "addr option"
  ad_vis :: "addr option"
  ad_meta :: "addr option"

text \<open>The objects of the heap. \<open>OVal\<close> is a scalar that is held by reference (a scalar
  passed where the module expects a dict), \<open>OPy\<close> an object of a class the module does
  not look into.\<close>

datatype obj =
    OArr ndarr
  | OBuf "val list"
  | ODtype "string list"
  | OTab table
  | ODict "(string \<times> val) list"
  | OAnn anndata
  | OVal val
  | OPy pyclass

text \<open>The heap is the list of the objects allocated so far; the address of an object is
  its position. A new object goes to the end, and an object is changed in its place.\<close>

type_synonym heap = "obj list"

type_synonym 'a res = "(error \<times> heap) + ('a \<times> heap)"

definition next_addr :: "heap \<Rightarrow> addr" where
  "next_addr h = length h"

definition objs :: "heap \<Rightarrow> addr \<Rightarrow> obj option" where
  "objs h a = (if a < length h then Some (h ! a) else None)"

definition push :: "heap \<Rightarrow> obj \<Rightarrow> heap" where
  "push h ob = h @ [ob]"

definition alloc :: "heap \<Rightarrow> obj \<Rightarrow> addr \<times> heap" where
  "alloc h ob = (next_addr h, push h ob)"

definition store :: "heap \<Rightarrow> addr \<Rightarrow> obj \<Rightarrow> heap" where
  "store h a ob = h[a := ob]"

definition get_arr :: "heap \<Rightarrow> addr \<Rightarrow> ndarr option" where
  "get_arr h a = (case objs h a of Some (OArr x) \<Rightarrow> Some x | _ \<Rightarrow> None)"

definition get_buf :: "heap \<Rightarrow> addr \<Rightarrow> val list option" where
  "get_buf h a = (case objs h a of Some (OBuf x) \<Rightarrow> Some x | _ \<Rightarrow> None)"

definition get_dtype :: "heap \<Rightarrow> addr \<Rightarrow> string list option" where
  "get_dtype h a = (case objs h a of Some (ODtype x) \<Rightarrow> Some x | _ \<Rightarrow> None)"

definition get_tab :: "heap \<Rightarrow> addr \<Rightarrow> table option" where
  "get_tab h a = (case objs h a of Some (OTab x) \<Rightarrow> Some x | _ \<Rightarrow> None)"

definition get_dict :: "heap \<Rightarrow> addr \<Rightarrow> (string \<times> val) list option" where
  "get_dict h a = (case objs h a of Some (ODict x) \<Rightarrow> Some x | _ \<Rightarrow> None)"

definition get_ann :: "heap \<Rightarrow> addr \<Rightarrow> anndata option" where
  "get_ann h a = (case objs h a of Some (OAnn x) \<Rightarrow> Some x | _ \<Rightarrow> None)"

definition get_val :: "heap \<Rightarrow> addr \<Rightarrow> val option" where
  "get_val h a = (case objs h a of Some (OVal x) \<Rightarrow> Some x | _ \<Rightarrow> None)"

text \<open>\<^verbatim>\<open>type(x)\<close> of the object at an address.\<close>

definition class_of :: "heap \<Rightarrow> addr \<Rightarrow> pyclass" where
  "class_of h a =
     (case objs h a of
        Some (OArr x) \<Rightarrow> a_cls x
      | Some (OTab t) \<Rightarrow> (case t_name_col t of None \<Rightarrow> RecArray | Some n \<Rightarrow> BoundRecArrC)
      | Some (ODict d) \<Rightarrow> PyDict
      | Some (OAnn x) \<Rightarrow> AnnDataC
      | Some (OPy c) \<Rightarrow> c
      | _ \<Rightarrow> PyObject)"

text \<open>The elements of a storage object, row by row, read through its offsets.\<close>

definition arr_values :: "heap \<Rightarrow> addr \<Rightarrow> val list option" where
  "arr_values h x =
     (case get_arr h x of
        None \<Rightarrow> None
      | Some a \<Rightarrow>
          (case get_buf h (a_buf a) of
             None \<Rightarrow> None
           | Some b \<Rightarrow>
               if list_all (\<lambda>k. k < length b) (a_offs a)
               then Some (map (nth b) (a_offs a)) else None))"

section \<open>The library calls the module makes\<close>

text \<open>
  numpy and scipy are not part of the module. Each call the module makes on them is
  modelled here by what the library documents for it, on the objects above: basic
  slicing of an \<^verbatim>\<open>ndarray\<close> gives a view, indexing with a list of integers gives a
  copy, a sparse matrix is never viewed, \<^verbatim>\<open>copy()\<close> of an array keeps the dtype object
  of the original, and assigning \<^verbatim>\<open>dtype.names\<close> changes the dtype object in place.
  Field types and masks are left out: every column and every buffer holds the values
  as they were given.
\<close>

subsection \<open>Selectors\<close>

text \<open>What a caller writes between the brackets: an integer, a slice, a list of
  integers, a boolean mask (a numpy array of booleans) or a string, alone or as a
  pair. After \<^verbatim>\<open>_unpack_index\<close> each selector is a slice, a list of integers or a
  string.\<close>

datatype key =
    KInt int
  | KSlice "int option" "int option" "int option"
  | KList "int list"
  | KMask "bool list"
  | KName string

datatype index = ISingle key | IPair key key

datatype sel =
    Slice "int option" "int option" "int option"
  | IdxList "int list"
  | SelName string

definition slice_None :: sel where
  "slice_None = Slice None None None"

fun is_slice :: "sel \<Rightarrow> bool" where
  "is_slice (Slice a b c) = True"
| "is_slice (IdxList ks) = False"
| "is_slice (SelName s) = False"

text \<open>Python's \<^verbatim>\<open>slice.indices(n)\<close> followed by \<^verbatim>\<open>range\<close>: the positions a slice
  selects on an axis of length \<open>n\<close>.\<close>

definition slice_adjust :: "int option \<Rightarrow> int option \<Rightarrow> int option \<Rightarrow> int \<Rightarrow> error + (int \<times> int \<times> int)" where
  "slice_adjust a b c n =
     (let step = (case c of None \<Rightarrow> 1 | Some k \<Rightarrow> k) in
      if step = 0 then Inl ValueError_slice_step_zero
      else
        let lower = (if step < 0 then - 1 else 0);
            upper = (if step < 0 then n - 1 else n);
            start = (case a of
                       None \<Rightarrow> (if step < 0 then upper else lower)
                     | Some i \<Rightarrow> (if i < 0 then max (i + n) lower else min i upper));
            stop = (case b of
                      None \<Rightarrow> (if step < 0 then lower else upper)
                    | Some j \<Rightarrow> (if j < 0 then max (j + n) lower else min j upper))
        in Inr (start, stop, step))"

definition py_range :: "int \<Rightarrow> int \<Rightarrow> int \<Rightarrow> nat list" where
  "py_range start stop step =
     (if 0 < step \<and> start < stop
      then map (\<lambda>k. nat (start + int k * step)) [0..<nat ((stop - start - 1) div step + 1)]
      else if step < 0 \<and> stop < start
      then map (\<lambda>k. nat (start + int k * step)) [0..<nat ((start - stop - 1) div (- step) + 1)]
      else [])"

text \<open>A list of integers used as an index: a negative entry counts from the end, an
  entry outside \<open>-n..n-1\<close> raises IndexError. A string is no index of an axis.\<close>

fun resolve_list :: "int list \<Rightarrow> nat \<Rightarrow> error + nat list" where
  "resolve_list [] n = Inr []"
| "resolve_list (i # rest) n =
     (if - int n \<le> i \<and> i < int n
      then (case resolve_list rest n of
              Inl e \<Rightarrow> Inl e
            | Inr ks \<Rightarrow> Inr (nat (if i < 0 then i + int n else i) # ks))
      else Inl (IndexError_out_of_bounds i n))"

fun resolve_sel :: "sel \<Rightarrow> nat \<Rightarrow> error + nat list" where
  "resolve_sel (Slice a b c) n =
     (case slice_adjust a b c (int n) of
        Inl e \<Rightarrow> Inl e
      | Inr (start, stop, step) \<Rightarrow> Inr (py_range start stop step))"
| "resolve_sel (IdxList ks) n = resolve_list ks n"
| "resolve_sel (SelName s) n = Inl (IndexError_invalid_index s)"

text \<open>The positions a boolean mask selects (\<^verbatim>\<open>mask.nonzero()[0]\<close>).\<close>

definition nonzero :: "bool list \<Rightarrow> int list" where
  "nonzero m = map (\<lambda>k. int k) (filter (\<lambda>k. m ! k) [0..<length m])"

subsection \<open>Storage arrays\<close>

text \<open>The buffer positions of the elements \<open>X[rs, cs]\<close> of a matrix with \<open>C\<close> columns:
  every row of \<open>rs\<close> with every column of \<open>cs\<close> when a slice is involved, the pairs
  \<open>(rs[k], cs[k])\<close> (a list of length one repeated) when both selectors are lists.\<close>

definition outer_offs :: "nat list \<Rightarrow> nat \<Rightarrow> nat list \<Rightarrow> nat list \<Rightarrow> nat list" where
  "outer_offs offs C rs cs = concat (map (\<lambda>r. map (\<lambda>c. offs ! (r * C + c)) cs) rs)"

definition paired_offs :: "nat list \<Rightarrow> nat \<Rightarrow> nat list \<Rightarrow> nat list \<Rightarrow> nat list" where
  "paired_offs offs C rs cs =
     (let n = max (length rs) (length cs);
          rs' = (if length rs = 1 then replicate n (hd rs) else rs);
          cs' = (if length cs = 1 then replicate n (hd cs) else cs)
      in map (\<lambda>(r, c). offs ! (r * C + c)) (zip rs' cs'))"

definition selected_offs :: "nat list \<Rightarrow> nat \<Rightarrow> sel \<Rightarrow> sel \<Rightarrow> nat list \<Rightarrow> nat list \<Rightarrow> nat list" where
  "selected_offs offs C smp var rs cs =
     (if \<not> is_slice smp \<and> \<not> is_slice var then paired_offs offs C rs cs
      else outer_offs offs C rs cs)"

definition broadcastable :: "sel \<Rightarrow> sel \<Rightarrow> nat list \<Rightarrow> nat list \<Rightarrow> bool" where
  "broadcastable smp var rs cs =
     (is_slice smp \<or> is_slice var \<or> length rs = length cs \<or> length rs = 1 \<or> length cs = 1)"

text \<open>\<^verbatim>\<open>X[smp, var]\<close> on a matrix. Two slices on an \<^verbatim>\<open>ndarray\<close> (or a subclass of it)
  give a view: a new array object over the buffer of \<open>X\<close>. Every other combination gives
  a new array over a new buffer. Two lists give the paired elements, as a row
  \<^verbatim>\<open>matrix\<close> for a sparse matrix or a \<^verbatim>\<open>matrix\<close>, as a rank-1 array otherwise.\<close>

definition np_getitem2 :: "heap \<Rightarrow> addr \<Rightarrow> sel \<Rightarrow> sel \<Rightarrow> addr res" where
  "np_getitem2 h x smp var =
     (case get_arr h x of
        None \<Rightarrow> Inl (OutOfModel, h)
      | Some a \<Rightarrow>
     (case get_buf h (a_buf a) of
        None \<Rightarrow> Inl (OutOfModel, h)
      | Some b \<Rightarrow>
     (case a_shape a of
        [R, C] \<Rightarrow>
          if \<not> (length (a_offs a) = R * C \<and> list_all (\<lambda>k. k < length b) (a_offs a))
          then Inl (OutOfModel, h)
          else
          (case resolve_sel smp R of
             Inl e \<Rightarrow> Inl (e, h)
           | Inr rs \<Rightarrow>
          (case resolve_sel var C of
             Inl e \<Rightarrow> Inl (e, h)
           | Inr cs \<Rightarrow>
               if is_slice smp \<and> is_slice var \<and> a_cls a \<noteq> SpMatrix
               then Inr (alloc h (OArr (a\<lparr>a_shape := [length rs, length cs],
                                          a_offs := outer_offs (a_offs a) C rs cs\<rparr>)))
               else if \<not> broadcastable smp var rs cs
               then Inl (IndexError_broadcast (length rs) (length cs), h)
               else
                 let offs = selected_offs (a_offs a) C smp var rs cs;
                     paired = (\<not> is_slice smp \<and> \<not> is_slice var);
                     matrix_like = (a_cls a = SpMatrix \<or> a_cls a = NpMatrix);
                     (b', h1) = alloc h (OBuf (map (nth b) offs))
                 in Inr (alloc h1 (OArr
                      \<lparr>a_cls = (if paired \<and> matrix_like then NpMatrix else a_cls a),
                       a_shape = (if paired then (if matrix_like then [1, length offs] else [length offs])
                                  else [length rs, length cs]),
                       a_buf = b',
                       a_offs = [0..<length offs],
                       a_names = a_names a\<rparr>))))
      | _ \<Rightarrow> Inl (OutOfModel, h))))"

text \<open>\<^verbatim>\<open>X[smp, var] = val\<close> for a scalar \<open>val\<close>: the selected elements of the buffer of
  \<open>X\<close> are overwritten in place.\<close>

definition np_setitem2 :: "heap \<Rightarrow> addr \<Rightarrow> sel \<Rightarrow> sel \<Rightarrow> val \<Rightarrow> unit res" where
  "np_setitem2 h x smp var v =
     (case get_arr h x of
        None \<Rightarrow> Inl (OutOfModel, h)
      | Some a \<Rightarrow>
     (case get_buf h (a_buf a) of
        None \<Rightarrow> Inl (OutOfModel, h)
      | Some b \<Rightarrow>
     (case a_shape a of
        [R, C] \<Rightarrow>
          if \<not> (length (a_offs a) = R * C \<and> list_all (\<lambda>k. k < length b) (a_offs a))
          then Inl (OutOfModel, h)
          else
          (case resolve_sel smp R of
             Inl e \<Rightarrow> Inl (e, h)
           | Inr rs \<Rightarrow>
          (case resolve_sel var C of
             Inl e \<Rightarrow> Inl (e, h)
           | Inr cs \<Rightarrow>
               if \<not> broadcastable smp var rs cs
               then Inl (IndexError_broadcast (length rs) (length cs), h)
               else Inr ((), store h (a_buf a)
                      (OBuf (fold (\<lambda>k bb. bb[k := v]) (selected_offs (a_offs a) C smp var rs cs) b)))))
      | _ \<Rightarrow> Inl (OutOfModel, h))))"

text \<open>\<^verbatim>\<open>del X[smp, var]\<close>: an \<^verbatim>\<open>ndarray\<close> refuses it (\<^verbatim>\<open>ValueError: cannot delete array
  elements\<close>), and a sparse matrix has no \<^verbatim>\<open>__delitem__\<close>.\<close>

definition np_delitem2 :: "heap \<Rightarrow> addr \<Rightarrow> sel \<Rightarrow> sel \<Rightarrow> unit res" where
  "np_delitem2 h x smp var =
     (case get_arr h x of
        None \<Rightarrow> Inl (OutOfModel, h)
      | Some a \<Rightarrow>
          if py_isinstance (a_cls a) NdArray then Inl (ValueError_cannot_delete, h)
          else Inl (TypeError_no_item_deletion, h))"

text \<open>\<^verbatim>\<open>X.T\<close> of a matrix: a new array object over the same buffer, rows and columns
  exchanged.\<close>

definition np_T :: "heap \<Rightarrow> addr \<Rightarrow> addr res" where
  "np_T h x =
     (case get_arr h x of
        None \<Rightarrow> Inl (OutOfModel, h)
      | Some a \<Rightarrow>
     (case a_shape a of
        [R, C] \<Rightarrow>
          if length (a_offs a) \<noteq> R * C then Inl (OutOfModel, h)
          else Inr (alloc h (OArr (a\<lparr>a_shape := [C, R],
                 a_offs := concat (map (\<lambda>c. map (\<lambda>r. a_offs a ! (r * C + c)) [0..<R]) [0..<C])\<rparr>)))
      | _ \<Rightarrow> Inl (OutOfModel, h)))"

subsection \<open>Record arrays and dtype objects\<close>

text \<open>\<^verbatim>\<open>np.arange(n)\<close>.\<close>

definition arange :: "nat \<Rightarrow> val list" where
  "arange n = map (\<lambda>k. IntV (int k)) [0..<n]"

function show_nat :: "nat \<Rightarrow> string" where
  "show_nat n =
     (if n < 10 then [char_of (48 + n)]
      else show_nat (n div 10) @ [char_of (48 + n mod 10)])"
  by pat_completeness auto
termination
  by (relation "measure (\<lambda>n. n)") auto

text \<open>The field names of \<^verbatim>\<open>np.dtype([(name, type), ...])\<close>: an empty name becomes
  \<^verbatim>\<open>f0\<close>, \<^verbatim>\<open>f1\<close>, ... by its position, and a name that occurs twice is refused.\<close>

definition np_dtype_names :: "string list \<Rightarrow> error + string list" where
  "np_dtype_names names =
     (let ns = map (\<lambda>(i, n). if n = [] then CHR ''f'' # show_nat i else n) (enumerate 0 names)
      in if distinct ns then Inr ns else Inl ValueError_duplicate_field)"

fun field_index :: "string list \<Rightarrow> string \<Rightarrow> nat option" where
  "field_index [] k = None"
| "field_index (n # ns) k = (if n = k then Some 0 else map_option Suc (field_index ns k))"

text \<open>\<^verbatim>\<open>table[name]\<close>: the column of a field.\<close>

definition rec_field :: "heap \<Rightarrow> addr \<Rightarrow> string \<Rightarrow> error + val list" where
  "rec_field h t name =
     (case get_tab h t of
        None \<Rightarrow> Inl OutOfModel
      | Some tb \<Rightarrow>
     (case get_dtype h (t_dtype tb) of
        None \<Rightarrow> Inl OutOfModel
      | Some names \<Rightarrow>
     (case field_index names name of
        None \<Rightarrow> Inl (ValueError_no_field name)
      | Some i \<Rightarrow> if i < length (t_cols tb) then Inr (t_cols tb ! i) else Inl OutOfModel)))"

text \<open>\<^verbatim>\<open>ndarray.__setitem__(name, value)\<close> on a record array, the call of line 80: the
  column of an existing field is overwritten in place, a value of length one being
  repeated; any other length that is not the table's raises, as does a name that is
  no field.\<close>

definition ndarray_setitem_field :: "heap \<Rightarrow> addr \<Rightarrow> string \<Rightarrow> val list \<Rightarrow> unit res" where
  "ndarray_setitem_field h self key value =
     (case get_tab h self of
        None \<Rightarrow> Inl (OutOfModel, h)
      | Some t \<Rightarrow>
     (case get_dtype h (t_dtype t) of
        None \<Rightarrow> Inl (OutOfModel, h)
      | Some names \<Rightarrow>
     (case field_index names key of
        None \<Rightarrow> Inl (ValueError_no_field key, h)
      | Some i \<Rightarrow>
          if length (t_cols t) \<le> i then Inl (OutOfModel, h)
          else if length value = t_len t
          then Inr ((), store h self (OTab (t\<lparr>t_cols := (t_cols t)[i := value]\<rparr>)))
          else if length value = 1
          then Inr ((), store h self (OTab (t\<lparr>t_cols := (t_cols t)[i := replicate (t_len t) (hd value)]\<rparr>)))
          else Inl (ValueError_broadcast (length value) (t_len t), h))))"

text \<open>\<^verbatim>\<open>table[sel]\<close> with a slice or a list of integers: the selected rows, as a record
  array with the dtype object of \<open>table\<close> and without the attributes of lines 56-57.
  The module reads the result once (lines 227-228 pass it to the constructor, which
  copies it), so its rows are kept by value.\<close>

definition rec_getitem :: "heap \<Rightarrow> addr \<Rightarrow> sel \<Rightarrow> addr res" where
  "rec_getitem h t s =
     (case get_tab h t of
        None \<Rightarrow> Inl (OutOfModel, h)
      | Some tb \<Rightarrow>
     (case resolve_sel s (t_len tb) of
        Inl e \<Rightarrow> Inl (e, h)
      | Inr ks \<Rightarrow>
          Inr (alloc h (OTab \<lparr>t_dtype = t_dtype tb,
                              t_cols = map (\<lambda>c. map (nth c) ks) (t_cols tb),
                              t_len = length ks,
                              t_parent = None,
                              t_name_col = None\<rparr>))))"

text \<open>\<^verbatim>\<open>np.rec.array(table)\<close>: for a record array this is \<^verbatim>\<open>table.copy()\<close>, a new
  array with its own data and the dtype object of \<open>table\<close>.\<close>

definition np_rec_array :: "heap \<Rightarrow> addr \<Rightarrow> addr res" where
  "np_rec_array h t =
     (case get_tab h t of
        None \<Rightarrow> Inl (OutOfModel, h)
      | Some tb \<Rightarrow>
          Inr (alloc h (OTab (tb\<lparr>t_parent := None, t_name_col := None\<rparr>))))"

text \<open>\<^verbatim>\<open>table.dtype.names = names\<close>: the dtype object itself gets the new names, which
  must be as many as the old ones and distinct.\<close>

definition dtype_set_names :: "heap \<Rightarrow> addr \<Rightarrow> string list \<Rightarrow> unit res" where
  "dtype_set_names h d names =
     (case get_dtype h d of
        None \<Rightarrow> Inl (OutOfModel, h)
      | Some old \<Rightarrow>
          if length names \<noteq> length old then Inl (ValueError_shape_mismatch, h)
          else if \<not> distinct names then Inl (ValueError_duplicate_field, h)
          else Inr ((), store h d (ODtype names)))"

text \<open>\<^verbatim>\<open>append_fields(table, [key], [value], usemask=False, asrecarray=True)\<close>: a new
  plain record array with a new dtype, as long as the longer of the table and the
  value, the shorter one filled up; the new field is named as \<^verbatim>\<open>np.dtype\<close> names a
  single field.\<close>

definition append_fields :: "heap \<Rightarrow> addr \<Rightarrow> string \<Rightarrow> val list \<Rightarrow> addr res" where
  "append_fields h t key value =
     (case get_tab h t of
        None \<Rightarrow> Inl (OutOfModel, h)
      | Some tb \<Rightarrow>
     (case get_dtype h (t_dtype tb) of
        None \<Rightarrow> Inl (OutOfModel, h)
      | Some names \<Rightarrow>
          let new_name = (if key = [] then ''f0'' else key) in
          if new_name \<in> set names then Inl (ValueError_duplicate_field, h)
          else
            let n = max (t_len tb) (length value);
                pad = (\<lambda>c. c @ replicate (n - length c) Unset);
                (d, h1) = alloc h (ODtype (names @ [new_name]))
            in Inr (alloc h1 (OTab \<lparr>t_dtype = d,
                                    t_cols = map pad (t_cols tb) @ [pad value],
                                    t_len = n,
                                    t_parent = None,
                                    t_name_col = None\<rparr>))))"

section \<open>The module\<close>

subsection \<open>Truth value of an AnnData\<close>

text \<open>\<^verbatim>\<open>AnnData.__len__\<close> (lines 248-249) is \<^verbatim>\<open>self.X.shape[0]\<close>. The class defines no
  \<^verbatim>\<open>__bool__\<close>, so Python takes an instance for true exactly when its length is not
  zero: this is what \<^verbatim>\<open>if self._parent\<close> of line 69 tests.\<close>

definition AnnData_len :: "heap \<Rightarrow> addr \<Rightarrow> error + nat" where
  "AnnData_len h self =
     (case get_ann h self of
        None \<Rightarrow> Inl OutOfModel
      | Some a \<Rightarrow>
     (case ad_X a of
        None \<Rightarrow> Inl (AttributeError ''X'')
      | Some x \<Rightarrow>
     (case get_arr h x of
        None \<Rightarrow> Inl OutOfModel
      | Some xa \<Rightarrow>
     (case a_shape xa of
        [] \<Rightarrow> Inl IndexError_tuple_index
      | n # rest \<Rightarrow> Inr n))))"

definition py_truth :: "heap \<Rightarrow> addr option \<Rightarrow> error + bool" where
  "py_truth h parent =
     (case parent of
        None \<Rightarrow> Inr False
      | Some p \<Rightarrow> (case AnnData_len h p of Inl e \<Rightarrow> Inl e | Inr n \<Rightarrow> Inr (n \<noteq> 0)))"

subsection \<open>BoundRecArr (lines 25-80)\<close>

text \<open>The second and third argument of the AnnData constructor, and the first of
  \<^verbatim>\<open>BoundRecArr\<close>: \<^verbatim>\<open>None\<close>, a record array, a mapping from names to columns, or an object
  of another class.\<close>

datatype source = SrcNone | SrcRec addr | SrcDict "(string \<times> val list) list" | SrcOther pyclass

text \<open>Lines 31-53: the field names and the columns, by the kind of source. The names of
  a dtype are distinct, so reading each field of a record array by its name (line 35)
  gives its columns in order.\<close>

definition source_cols :: "heap \<Rightarrow> source \<Rightarrow> nat \<Rightarrow> string \<Rightarrow> error + (string list \<times> val list list)" where
  "source_cols h source nr_row name_col =
     (case source of
        SrcNone \<Rightarrow>
          (case np_dtype_names [name_col] of
             Inl e \<Rightarrow> Inl e
           | Inr ns \<Rightarrow> Inr (ns, [arange nr_row]))
      | SrcRec r \<Rightarrow>
          (case get_tab h r of
             None \<Rightarrow> Inl OutOfModel
           | Some t \<Rightarrow>
          (case get_dtype h (t_dtype t) of
             None \<Rightarrow> Inl OutOfModel
           | Some names \<Rightarrow> Inr (names, t_cols t)))
      | SrcDict d \<Rightarrow>
          let names = map fst d;
              cols = map snd d;
              names' = (if name_col \<notin> set names then names @ [name_col] else names);
              cols' = (if name_col \<notin> set names then cols @ [arange nr_row] else cols)
          in (case np_dtype_names names' of
                Inl e \<Rightarrow> Inl e
              | Inr ns \<Rightarrow> Inr (ns, cols'))
      | SrcOther c \<Rightarrow> Inl (ValueError_meta_type c))"

text \<open>Line 60 runs \<^verbatim>\<open>BoundRecArr.__setitem__\<close> with a key that is one of the new array's
  own field names: the test of line 69 is evaluated (its first operand can raise), and
  its second operand is false, so line 80 is what runs.\<close>

definition setitem_own_field :: "heap \<Rightarrow> addr \<Rightarrow> string \<Rightarrow> val list \<Rightarrow> unit res" where
  "setitem_own_field h arr name col =
     (case get_tab h arr of
        None \<Rightarrow> Inl (OutOfModel, h)
      | Some t \<Rightarrow>
     (case t_parent t of
        None \<Rightarrow> Inl (AttributeError ''_parent'', h)
      | Some parent \<Rightarrow>
     (case py_truth h parent of
        Inl e \<Rightarrow> Inl (e, h)
      | Inr b \<Rightarrow> ndarray_setitem_field h arr name col)))"

fun fill_fields :: "heap \<Rightarrow> addr \<Rightarrow> (string \<times> val list) list \<Rightarrow> unit res" where
  "fill_fields h arr [] = Inr ((), h)"
| "fill_fields h arr ((name, col) # rest) =
     (case setitem_own_field h arr name col of
        Inl eh \<Rightarrow> Inl eh
      | Inr (u, h1) \<Rightarrow> fill_fields h1 arr rest)"

text \<open>\<^verbatim>\<open>BoundRecArr.__new__\<close> (lines 30-62). The new array gets a dtype object of its
  own (\<^verbatim>\<open>np.recarray.__new__\<close> builds one from the names), the length of the first
  column, and then each column by assignment.\<close>

definition BoundRecArr_new :: "heap \<Rightarrow> source \<Rightarrow> nat \<Rightarrow> string \<Rightarrow> addr option \<Rightarrow> addr res" where
  "BoundRecArr_new h source nr_row name_col parent =
     (case source_cols h source nr_row name_col of
        Inl e \<Rightarrow> Inl (e, h)
      | Inr (names, cols) \<Rightarrow>
     (case cols of
        [] \<Rightarrow> Inl (IndexError_no_columns, h)
      | c0 # cs \<Rightarrow>
          let (d, h1) = alloc h (ODtype names);
              (arr, h2) = alloc h1 (OTab \<lparr>t_dtype = d,
                                          t_cols = map (\<lambda>n. replicate (length c0) Unset) names,
                                          t_len = length c0,
                                          t_parent = Some parent,
                                          t_name_col = Some name_col\<rparr>)
          in (case fill_fields h2 arr (zip names cols) of
                Inl eh \<Rightarrow> Inl eh
              | Inr (u, h3) \<Rightarrow> Inr (arr, h3))))"

text \<open>The property \<^verbatim>\<open>columns\<close> (lines 64-66).\<close>

definition columns :: "heap \<Rightarrow> addr \<Rightarrow> error + string list" where
  "columns h self =
     (case get_tab h self of
        None \<Rightarrow> Inl OutOfModel
      | Some t \<Rightarrow>
     (case get_dtype h (t_dtype t) of
        None \<Rightarrow> Inl OutOfModel
      | Some names \<Rightarrow>
     (case t_name_col t of
        None \<Rightarrow> (if names = [] then Inr [] else Inl (AttributeError ''_name_col''))
      | Some name_col \<Rightarrow> Inr (filter (\<lambda>c. \<not> c = name_col) names))))"

text \<open>\<^verbatim>\<open>setattr(self._parent, attr, new)\<close> of line 78.\<close>

definition setattr_table :: "heap \<Rightarrow> addr \<Rightarrow> string \<Rightarrow> addr \<Rightarrow> unit res" where
  "setattr_table h p attr new =
     (case get_ann h p of
        None \<Rightarrow> Inl (OutOfModel, h)
      | Some a \<Rightarrow>
          Inr ((), store h p (OAnn (if attr = ''smp'' then a\<lparr>ad_smp := Some new\<rparr>
                                    else a\<lparr>ad_var := Some new\<rparr>))))"

text \<open>\<^verbatim>\<open>BoundRecArr.__setitem__\<close> (lines 68-80) for a string key.\<close>

definition BoundRecArr_setitem :: "heap \<Rightarrow> addr \<Rightarrow> string \<Rightarrow> val list \<Rightarrow> unit res" where
  "BoundRecArr_setitem h self key value =
     (case get_tab h self of
        None \<Rightarrow> Inl (OutOfModel, h)
      | Some t \<Rightarrow>
     (case get_dtype h (t_dtype t) of
        None \<Rightarrow> Inl (OutOfModel, h)
      | Some names \<Rightarrow>
     (case t_parent t of
        None \<Rightarrow> Inl (AttributeError ''_parent'', h)
      | Some parent \<Rightarrow>
     (case py_truth h parent of
        Inl e \<Rightarrow> Inl (e, h)
      | Inr b \<Rightarrow>
          if b \<and> key \<notin> set names
          then
            (case t_name_col t of
               None \<Rightarrow> Inl (AttributeError ''_name_col'', h)
             | Some name_col \<Rightarrow>
                 let attr = (if name_col = SMP_NAMES then ''smp'' else ''var'') in
                 if t_len t < length value
                 then Inl (ValueError_too_many_entries (length value) (t_len t), h)
                 else
                   (case append_fields h self key value of
                      Inl eh \<Rightarrow> Inl eh
                    | Inr (source, h1) \<Rightarrow>
                   (case BoundRecArr_new h1 (SrcRec source) (t_len t) name_col parent of
                      Inl eh \<Rightarrow> Inl eh
                    | Inr (new, h2) \<Rightarrow>
                   (case parent of
                      None \<Rightarrow> Inl (OutOfModel, h2)
                    | Some p \<Rightarrow> setattr_table h2 p attr new))))
          else ndarray_setitem_field h self key value))))"

subsection \<open>Dimension check (lines 82-91)\<close>

definition check_dimensions :: "heap \<Rightarrow> addr \<Rightarrow> addr \<Rightarrow> addr \<Rightarrow> unit res" where
  "check_dimensions h data smp var =
     (case get_arr h data of
        None \<Rightarrow> Inl (OutOfModel, h)
      | Some xa \<Rightarrow>
     (case a_shape xa of
        [nr_smp, nr_var] \<Rightarrow>
          (case get_tab h smp of
             None \<Rightarrow> Inl (OutOfModel, h)
           | Some ts \<Rightarrow>
          (case get_tab h var of
             None \<Rightarrow> Inl (OutOfModel, h)
           | Some tv \<Rightarrow>
               if t_len ts \<noteq> nr_smp then Inl (ValueError_smp_rows nr_smp (t_len ts), h)
               else if t_len tv \<noteq> nr_var then Inl (ValueError_var_rows nr_var (t_len tv), h)
               else Inr ((), h)))
      | sh \<Rightarrow> Inl (ValueError_unpack_shape (length sh), h)))"

subsection \<open>AnnData (lines 93-260)\<close>

definition find_storage_type :: "pyclass \<Rightarrow> StorageType option" where
  "find_storage_type c = find (\<lambda>s_type. py_isinstance c (StorageType_value s_type)) StorageType_members"

definition new_anndata :: anndata where
  "new_anndata = \<lparr>ad_storage_type = None, ad_X = None, ad_smp = None, ad_var = None,
                   ad_vis = None, ad_meta = None\<rparr>"

definition set_ann :: "heap \<Rightarrow> addr \<Rightarrow> (anndata \<Rightarrow> anndata) \<Rightarrow> heap" where
  "set_ann h p f = (case get_ann h p of None \<Rightarrow> h | Some a \<Rightarrow> store h p (OAnn (f a)))"

text \<open>The truth value of a scalar: a number is false when it is zero, a string when it is
  empty; an entry that was never written has none.\<close>

fun val_truth :: "val \<Rightarrow> bool option" where
  "val_truth (IntV n) = Some (n \<noteq> 0)"
| "val_truth (StrV s) = Some (s \<noteq> [])"
| "val_truth Unset = None"

text \<open>\<^verbatim>\<open>vis or {}\<close> (line 164): \<^verbatim>\<open>None\<close>, an empty dict and a false scalar are false, so each
  gives a new empty dict; a dict with an entry and a true scalar are kept as the object
  they are.\<close>

definition vis_or_empty :: "heap \<Rightarrow> addr option \<Rightarrow> addr res" where
  "vis_or_empty h vis_arg =
     (case vis_arg of
        None \<Rightarrow> Inr (alloc h (ODict []))
      | Some d \<Rightarrow>
          (case get_dict h d of
             Some kv \<Rightarrow> if kv = [] then Inr (alloc h (ODict [])) else Inr (d, h)
           | None \<Rightarrow>
               (case get_val h d of
                  None \<Rightarrow> Inl (OutOfModel, h)
                | Some v \<Rightarrow>
                    (case val_truth v of
                       None \<Rightarrow> Inl (OutOfModel, h)
                     | Some b \<Rightarrow> if b then Inr (d, h) else Inr (alloc h (ODict []))))))"

text \<open>\<^verbatim>\<open>AnnData.__init__\<close> (lines 94-165), in the three blocks of its body. \<open>self\<close> is the
  new instance, \<open>x\<close> the object passed as \<^verbatim>\<open>X\<close>, \<open>meta_kw\<close> the keyword arguments, which
  Python collects in a new dict.\<close>

text \<open>Lines 138-157: the storage type is the first member of the enumeration that \<open>x\<close>
  is an instance of; a rank-1 \<open>x\<close> is reshaped in place; \<open>x\<close> must then have rank 2
  (line 151, and the unpacking of line 155).\<close>

definition init_storage :: "heap \<Rightarrow> addr \<Rightarrow> addr \<Rightarrow> (nat \<times> nat) res" where
  "init_storage h self x =
     (case find_storage_type (class_of h x) of
        None \<Rightarrow> Inl (ValueError_data_type (class_of h x) (map class_name classes), h)
      | Some s_type \<Rightarrow>
          let h1 = set_ann h self (\<lambda>a. a\<lparr>ad_storage_type := Some s_type\<rparr>) in
          (case get_arr h1 x of
             None \<Rightarrow> Inl (OutOfModel, h1)
           | Some xa0 \<Rightarrow>
               let xa = (if length (a_shape xa0) = 1
                         then xa0\<lparr>a_shape := [a_shape xa0 ! 0, 1]\<rparr> else xa0);
                   h2 = (if length (a_shape xa0) = 1 then store h1 x (OArr xa) else h1)
               in
               if a_names xa = None \<and> length (a_shape xa) \<noteq> 2
               then Inl (ValueError_not_2d (length (a_shape xa)), h2)
               else
               (case a_shape xa of
                  [nr_smp, nr_var] \<Rightarrow>
                    Inr ((nr_smp, nr_var), set_ann h2 self (\<lambda>a. a\<lparr>ad_X := Some x\<rparr>))
                | sh \<Rightarrow> Inl (ValueError_unpack_shape (length sh), h2))))"

text \<open>Lines 159-162: the two bound tables and the dimension check.\<close>

definition init_tables ::
  "heap \<Rightarrow> addr \<Rightarrow> addr \<Rightarrow> source \<Rightarrow> source \<Rightarrow> nat \<Rightarrow> nat \<Rightarrow> unit res" where
  "init_tables h self x smp_arg var_arg nr_smp nr_var =
     (case BoundRecArr_new h smp_arg nr_smp SMP_NAMES (Some self) of
        Inl eh \<Rightarrow> Inl eh
      | Inr (s, h1) \<Rightarrow>
          let h2 = set_ann h1 self (\<lambda>a. a\<lparr>ad_smp := Some s\<rparr>) in
          (case BoundRecArr_new h2 var_arg nr_var VAR_NAMES (Some self) of
             Inl eh \<Rightarrow> Inl eh
           | Inr (v, h3) \<Rightarrow>
               let h4 = set_ann h3 self (\<lambda>a. a\<lparr>ad_var := Some v\<rparr>)
               in check_dimensions h4 x s v))"

text \<open>Lines 164-165.\<close>

definition init_meta :: "heap \<Rightarrow> addr \<Rightarrow> addr option \<Rightarrow> (string \<times> val) list \<Rightarrow> unit res" where
  "init_meta h self vis_arg meta_kw =
     (case vis_or_empty h vis_arg of
        Inl eh \<Rightarrow> Inl eh
      | Inr (vd, h1) \<Rightarrow>
          let h2 = set_ann h1 self (\<lambda>a. a\<lparr>ad_vis := Some vd\<rparr>);
              (m, h3) = alloc h2 (ODict meta_kw)
          in Inr ((), set_ann h3 self (\<lambda>a. a\<lparr>ad_meta := Some m\<rparr>)))"

definition AnnData_init ::
  "heap \<Rightarrow> addr \<Rightarrow> source \<Rightarrow> source \<Rightarrow> addr option \<Rightarrow> (string \<times> val) list \<Rightarrow> addr res" where
  "AnnData_init h0 x smp_arg var_arg vis_arg meta_kw =
     (let (self, h1) = alloc h0 (OAnn new_anndata) in
      case init_storage h1 self x of
        Inl eh \<Rightarrow> Inl eh
      | Inr ((nr_smp, nr_var), h2) \<Rightarrow>
     (case init_tables h2 self x smp_arg var_arg nr_smp nr_var of
        Inl eh \<Rightarrow> Inl eh
      | Inr (u, h3) \<Rightarrow>
     (case init_meta h3 self vis_arg meta_kw of
        Inl eh \<Rightarrow> Inl eh
      | Inr (u', h4) \<Rightarrow> Inr (self, h4))))"

text \<open>The call \<^verbatim>\<open>AnnData(X, smp, var, vis, **meta)\<close> of lines 232 and 258: a key of
  \<^verbatim>\<open>meta\<close> that is the name of a parameter already given makes the call a TypeError.\<close>

definition init_params :: "string list" where
  "init_params = [''self'', ''X'', ''smp'', ''var'', ''vis'']"

definition AnnData_call ::
  "heap \<Rightarrow> addr \<Rightarrow> source \<Rightarrow> source \<Rightarrow> addr option \<Rightarrow> (string \<times> val) list \<Rightarrow> addr res" where
  "AnnData_call h x smp_arg var_arg vis_arg meta_kw =
     (case find (\<lambda>k. k \<in> set init_params) (map fst meta_kw) of
        Some k \<Rightarrow> Inl (TypeError_multiple_values k, h)
      | None \<Rightarrow> AnnData_init h x smp_arg var_arg vis_arg meta_kw)"

text \<open>\<^verbatim>\<open>np.rec.fromarrays([np.asarray(names)], names=[name_col])\<close>, and
  \<^verbatim>\<open>AnnData.from_ddata\<close> (lines 167-187). Line 187 passes \<^verbatim>\<open>X\<close>, \<^verbatim>\<open>smp\<close> and \<^verbatim>\<open>var\<close> by
  position and the keywords it collected in \<^verbatim>\<open>meta\<close> after them: a keyword \<^verbatim>\<open>self\<close>, \<^verbatim>\<open>smp\<close>
  or \<^verbatim>\<open>var\<close> is then given twice, a TypeError; a keyword \<^verbatim>\<open>vis\<close> becomes the parameter
  \<^verbatim>\<open>vis\<close> of the constructor and is no entry of the metadata. (\<^verbatim>\<open>X\<close>, \<^verbatim>\<open>rownames\<close> and
  \<^verbatim>\<open>colnames\<close> are parameters of \<^verbatim>\<open>from_ddata\<close> itself and never reach \<^verbatim>\<open>meta\<close>.) The value of a
  keyword is a scalar here; the constructor gets a reference to it.\<close>

definition rec_fromarrays :: "heap \<Rightarrow> val list \<Rightarrow> string \<Rightarrow> addr \<times> heap" where
  "rec_fromarrays h col name_col =
     (let (d, h1) = alloc h (ODtype [name_col])
      in alloc h1 (OTab \<lparr>t_dtype = d, t_cols = [col], t_len = length col,
                         t_parent = None, t_name_col = None\<rparr>))"

definition from_ddata ::
  "heap \<Rightarrow> addr option \<Rightarrow> val list option \<Rightarrow> val list option \<Rightarrow> (string \<times> val) list \<Rightarrow> addr res" where
  "from_ddata h x_arg rownames colnames meta_kw =
     (case x_arg of
        None \<Rightarrow> Inl (ValueError_missing_data (map fst meta_kw), h)
      | Some x \<Rightarrow>
          let (smp_meta, h1) = (case rownames of
                                  None \<Rightarrow> (SrcNone, h)
                                | Some rn \<Rightarrow> (let (t, h') = rec_fromarrays h rn SMP_NAMES in (SrcRec t, h')));
              (var_meta, h2) = (case colnames of
                                  None \<Rightarrow> (SrcNone, h1)
                                | Some cn \<Rightarrow> (let (t, h') = rec_fromarrays h1 cn VAR_NAMES in (SrcRec t, h')))
          in (case find (\<lambda>k. k \<in> set [''self'', ''smp'', ''var'']) (map fst meta_kw) of
                Some k \<Rightarrow> Inl (TypeError_multiple_values k, h2)
              | None \<Rightarrow>
                  (case map_of meta_kw ''vis'' of
                     None \<Rightarrow> AnnData_init h2 x smp_meta var_meta None meta_kw
                   | Some v \<Rightarrow>
                       let (vis, h3) = alloc h2 (OVal v)
                       in AnnData_init h3 x smp_meta var_meta (Some vis)
                            (filter (\<lambda>kv. fst kv \<noteq> ''vis'') meta_kw))))"

text \<open>Reading an attribute of an instance.\<close>

definition attr_X :: "heap \<Rightarrow> addr \<Rightarrow> error + addr" where
  "attr_X h self = (case get_ann h self of None \<Rightarrow> Inl OutOfModel
     | Some a \<Rightarrow> (case ad_X a of None \<Rightarrow> Inl (AttributeError ''X'') | Some r \<Rightarrow> Inr r))"

definition attr_smp :: "heap \<Rightarrow> addr \<Rightarrow> error + addr" where
  "attr_smp h self = (case get_ann h self of None \<Rightarrow> Inl OutOfModel
     | Some a \<Rightarrow> (case ad_smp a of None \<Rightarrow> Inl (AttributeError ''smp'') | Some r \<Rightarrow> Inr r))"

definition attr_var :: "heap \<Rightarrow> addr \<Rightarrow> error + addr" where
  "attr_var h self = (case get_ann h self of None \<Rightarrow> Inl OutOfModel
     | Some a \<Rightarrow> (case ad_var a of None \<Rightarrow> Inl (AttributeError ''var'') | Some r \<Rightarrow> Inr r))"

definition attr_vis :: "heap \<Rightarrow> addr \<Rightarrow> error + addr" where
  "attr_vis h self = (case get_ann h self of None \<Rightarrow> Inl OutOfModel
     | Some a \<Rightarrow> (case ad_vis a of None \<Rightarrow> Inl (AttributeError ''vis'') | Some r \<Rightarrow> Inr r))"

definition attr_meta :: "heap \<Rightarrow> addr \<Rightarrow> error + addr" where
  "attr_meta h self = (case get_ann h self of None \<Rightarrow> Inl OutOfModel
     | Some a \<Rightarrow> (case ad_meta a of None \<Rightarrow> Inl (AttributeError ''_meta'') | Some r \<Rightarrow> Inr r))"

text \<open>The contents of \<^verbatim>\<open>self._meta\<close> and of \<^verbatim>\<open>self.vis\<close>.\<close>

definition meta_items :: "heap \<Rightarrow> addr \<Rightarrow> error + (string \<times> val) list" where
  "meta_items h self =
     (case attr_meta h self of
        Inl e \<Rightarrow> Inl e
      | Inr m \<Rightarrow> (case get_dict h m of None \<Rightarrow> Inl OutOfModel | Some kv \<Rightarrow> Inr kv))"

definition vis_items :: "heap \<Rightarrow> addr \<Rightarrow> error + (string \<times> val) list" where
  "vis_items h self =
     (case attr_vis h self of
        Inl e \<Rightarrow> Inl e
      | Inr m \<Rightarrow> (case get_dict h m of None \<Rightarrow> Inl OutOfModel | Some kv \<Rightarrow> Inr kv))"

text \<open>The properties \<^verbatim>\<open>smp_names\<close> and \<^verbatim>\<open>var_names\<close> (lines 189-203).\<close>

definition smp_names :: "heap \<Rightarrow> addr \<Rightarrow> error + val list" where
  "smp_names h self =
     (case attr_smp h self of Inl e \<Rightarrow> Inl e | Inr t \<Rightarrow> rec_field h t SMP_NAMES)"

definition smp_names_set :: "heap \<Rightarrow> addr \<Rightarrow> val list \<Rightarrow> unit res" where
  "smp_names_set h self keys =
     (case attr_smp h self of Inl e \<Rightarrow> Inl (e, h) | Inr t \<Rightarrow> BoundRecArr_setitem h t SMP_NAMES keys)"

definition var_names :: "heap \<Rightarrow> addr \<Rightarrow> error + val list" where
  "var_names h self =
     (case attr_var h self of Inl e \<Rightarrow> Inl e | Inr t \<Rightarrow> rec_field h t VAR_NAMES)"

definition var_names_set :: "heap \<Rightarrow> addr \<Rightarrow> val list \<Rightarrow> unit res" where
  "var_names_set h self keys =
     (case attr_var h self of Inl e \<Rightarrow> Inl (e, h) | Inr t \<Rightarrow> BoundRecArr_setitem h t VAR_NAMES keys)"

text \<open>\<^verbatim>\<open>IndexMixin._unpack_index\<close> of scipy: a single selector selects rows and gets the
  full slice for the columns, and a boolean array is replaced by the positions it
  selects. \<^verbatim>\<open>AnnData._unpack_index\<close> (lines 205-211) then turns an integer into the slice
  of that one position.\<close>

fun check_boolean :: "key \<Rightarrow> key" where
  "check_boolean (KMask m) = KList (nonzero m)"
| "check_boolean k = k"

definition IndexMixin_unpack_index :: "index \<Rightarrow> key \<times> key" where
  "IndexMixin_unpack_index index =
     (case index of
        ISingle k \<Rightarrow> (check_boolean k, KSlice None None None)
      | IPair r c \<Rightarrow> (check_boolean r, check_boolean c))"

fun int_to_slice :: "key \<Rightarrow> sel" where
  "int_to_slice (KInt i) = Slice (Some i) (Some (i + 1)) None"
| "int_to_slice (KSlice a b c) = Slice a b c"
| "int_to_slice (KList ks) = IdxList ks"
| "int_to_slice (KMask m) = IdxList (nonzero m)"
| "int_to_slice (KName s) = SelName s"

definition unpack_index :: "index \<Rightarrow> sel \<times> sel" where
  "unpack_index index =
     (let (smp, var) = IndexMixin_unpack_index index
      in (int_to_slice smp, int_to_slice var))"

text \<open>\<^verbatim>\<open>del table.iloc[sel, :]\<close> of lines 217 and 219: a record array has no attribute
  \<^verbatim>\<open>iloc\<close>; were a field so named, its column would refuse the deletion.\<close>

definition del_iloc :: "heap \<Rightarrow> addr \<Rightarrow> sel \<Rightarrow> unit res" where
  "del_iloc h t s =
     (case get_tab h t of
        None \<Rightarrow> Inl (OutOfModel, h)
      | Some tb \<Rightarrow>
     (case get_dtype h (t_dtype tb) of
        None \<Rightarrow> Inl (OutOfModel, h)
      | Some names \<Rightarrow>
          if ''iloc'' \<in> set names then Inl (ValueError_cannot_delete, h)
          else Inl (AttributeError ''iloc'', h)))"

text \<open>\<^verbatim>\<open>AnnData.__delitem__\<close> (lines 213-219).\<close>

definition AnnData_delitem :: "heap \<Rightarrow> addr \<Rightarrow> index \<Rightarrow> unit res" where
  "AnnData_delitem h self index =
     (let (smp, var) = unpack_index index in
      case attr_X h self of
        Inl e \<Rightarrow> Inl (e, h)
      | Inr x \<Rightarrow>
     (case np_delitem2 h x smp var of
        Inl eh \<Rightarrow> Inl eh
      | Inr (u, h1) \<Rightarrow>
     (case (if var = slice_None
            then (case attr_smp h1 self of Inl e \<Rightarrow> Inl (e, h1) | Inr t \<Rightarrow> del_iloc h1 t smp)
            else Inr ((), h1)) of
        Inl eh \<Rightarrow> Inl eh
      | Inr (u, h2) \<Rightarrow>
          if smp = slice_None
          then (case attr_var h2 self of Inl e \<Rightarrow> Inl (e, h2) | Inr t \<Rightarrow> del_iloc h2 t var)
          else Inr ((), h2))))"

text \<open>\<^verbatim>\<open>AnnData.__getitem__\<close> (lines 221-232): a value of the metadata for a string
  (lines 222-223), a new instance otherwise (lines 225-232).\<close>

datatype getres = GotVal val | GotAnn addr

definition getitem_matrix :: "heap \<Rightarrow> addr \<Rightarrow> index \<Rightarrow> addr res" where
  "getitem_matrix h self index =
     (let (smp, var) = unpack_index index in
      case attr_X h self of
        Inl e \<Rightarrow> Inl (e, h)
      | Inr x \<Rightarrow>
     (case np_getitem2 h x smp var of
        Inl eh \<Rightarrow> Inl eh
      | Inr (data, h1) \<Rightarrow>
     (case attr_smp h1 self of
        Inl e \<Rightarrow> Inl (e, h1)
      | Inr st \<Rightarrow>
     (case rec_getitem h1 st smp of
        Inl eh \<Rightarrow> Inl eh
      | Inr (smp_meta, h2) \<Rightarrow>
     (case attr_var h2 self of
        Inl e \<Rightarrow> Inl (e, h2)
      | Inr vt \<Rightarrow>
     (case rec_getitem h2 vt var of
        Inl eh \<Rightarrow> Inl eh
      | Inr (var_meta, h3) \<Rightarrow>
     (case (get_arr h3 data, get_tab h3 smp_meta, get_tab h3 var_meta) of
        (Some da, Some sm, Some vm) \<Rightarrow>
          (case a_shape da of
             [] \<Rightarrow> Inl (IndexError_tuple_index, h3)
           | d0 # ds \<Rightarrow>
               if t_len sm \<noteq> d0 then Inl (AssertionError, h3)
               else
               (case ds of
                  [] \<Rightarrow> Inl (IndexError_tuple_index, h3)
                | d1 # ds' \<Rightarrow>
                    if t_len vm \<noteq> d1 then Inl (AssertionError, h3)
                    else
                    (case attr_vis h3 self of
                       Inl e \<Rightarrow> Inl (e, h3)
                     | Inr vd \<Rightarrow>
                    (case meta_items h3 self of
                       Inl e \<Rightarrow> Inl (e, h3)
                     | Inr kv \<Rightarrow>
                         AnnData_call h3 data (SrcRec smp_meta) (SrcRec var_meta) (Some vd) kv))))
      | other \<Rightarrow> Inl (OutOfModel, h3))))))))"

definition AnnData_getitem :: "heap \<Rightarrow> addr \<Rightarrow> index \<Rightarrow> getres res" where
  "AnnData_getitem h self index =
     (case index of
        ISingle (KName k) \<Rightarrow>
          (case meta_items h self of
             Inl e \<Rightarrow> Inl (e, h)
           | Inr kv \<Rightarrow>
               (case map_of kv k of
                  None \<Rightarrow> Inl (KeyError k, h)
                | Some v \<Rightarrow> Inr (GotVal v, h)))
      | other \<Rightarrow>
          (case getitem_matrix h self index of
             Inl eh \<Rightarrow> Inl eh
           | Inr (new, h') \<Rightarrow> Inr (GotAnn new, h')))"

text \<open>\<^verbatim>\<open>AnnData.__setitem__\<close> (lines 234-240) for a scalar value, and the dict
  assignment \<^verbatim>\<open>d[k] = v\<close> it makes for a string.\<close>

fun dict_set :: "(string \<times> val) list \<Rightarrow> string \<Rightarrow> val \<Rightarrow> (string \<times> val) list" where
  "dict_set [] k v = [(k, v)]"
| "dict_set ((k', v') # rest) k v = (if k' = k then (k, v) # rest else (k', v') # dict_set rest k v)"

definition AnnData_setitem :: "heap \<Rightarrow> addr \<Rightarrow> index \<Rightarrow> val \<Rightarrow> unit res" where
  "AnnData_setitem h self index v =
     (case index of
        ISingle (KName k) \<Rightarrow>
          (case attr_meta h self of
             Inl e \<Rightarrow> Inl (e, h)
           | Inr m \<Rightarrow>
               (case get_dict h m of
                  None \<Rightarrow> Inl (OutOfModel, h)
                | Some kv \<Rightarrow> Inr ((), store h m (ODict (dict_set kv k v)))))
      | _ \<Rightarrow>
     (let (samp, feat) = unpack_index index in
      case attr_X h self of
        Inl e \<Rightarrow> Inl (e, h)
      | Inr x \<Rightarrow> np_setitem2 h x samp feat v))"

text \<open>\<^verbatim>\<open>__contains__\<close> and \<^verbatim>\<open>get\<close> (lines 242-246).\<close>

definition AnnData_contains :: "heap \<Rightarrow> addr \<Rightarrow> string \<Rightarrow> error + bool" where
  "AnnData_contains h self item =
     (case meta_items h self of Inl e \<Rightarrow> Inl e | Inr kv \<Rightarrow> Inr (item \<in> set (map fst kv)))"

definition AnnData_get :: "heap \<Rightarrow> addr \<Rightarrow> string \<Rightarrow> val option \<Rightarrow> error + val option" where
  "AnnData_get h self k dflt =
     (case meta_items h self of
        Inl e \<Rightarrow> Inl e
      | Inr kv \<Rightarrow> (case map_of kv k of None \<Rightarrow> Inr dflt | Some v \<Rightarrow> Inr (Some v)))"

text \<open>\<^verbatim>\<open>AnnData.transpose\<close> (lines 251-258).\<close>

definition rename_field :: "string \<Rightarrow> string \<Rightarrow> string list \<Rightarrow> string list" where
  "rename_field old new names = map (\<lambda>n. if n = old then new else n) names"

definition copy_renamed :: "heap \<Rightarrow> addr \<Rightarrow> string \<Rightarrow> string \<Rightarrow> addr res" where
  "copy_renamed h t old new =
     (case np_rec_array h t of
        Inl eh \<Rightarrow> Inl eh
      | Inr (c, h1) \<Rightarrow>
     (case get_tab h1 c of
        None \<Rightarrow> Inl (OutOfModel, h1)
      | Some tb \<Rightarrow>
     (case get_dtype h1 (t_dtype tb) of
        None \<Rightarrow> Inl (OutOfModel, h1)
      | Some names \<Rightarrow>
     (case dtype_set_names h1 (t_dtype tb) (rename_field old new names) of
        Inl eh \<Rightarrow> Inl eh
      | Inr (u, h2) \<Rightarrow> Inr (c, h2)))))"

definition AnnData_transpose :: "heap \<Rightarrow> addr \<Rightarrow> addr res" where
  "AnnData_transpose h self =
     (case attr_var h self of
        Inl e \<Rightarrow> Inl (e, h)
      | Inr vt \<Rightarrow>
     (case copy_renamed h vt VAR_NAMES SMP_NAMES of
        Inl eh \<Rightarrow> Inl eh
      | Inr (smp, h1) \<Rightarrow>
     (case attr_smp h1 self of
        Inl e \<Rightarrow> Inl (e, h1)
      | Inr st \<Rightarrow>
     (case copy_renamed h1 st SMP_NAMES VAR_NAMES of
        Inl eh \<Rightarrow> Inl eh
      | Inr (var, h2) \<Rightarrow>
     (case attr_X h2 self of
        Inl e \<Rightarrow> Inl (e, h2)
      | Inr x \<Rightarrow>
     (case np_T h2 x of
        Inl eh \<Rightarrow> Inl eh
      | Inr (xt, h3) \<Rightarrow>
     (case attr_vis h3 self of
        Inl e \<Rightarrow> Inl (e, h3)
      | Inr vd \<Rightarrow>
     (case meta_items h3 self of
        Inl e \<Rightarrow> Inl (e, h3)
      | Inr kv \<Rightarrow> AnnData_call h3 xt (SrcRec smp) (SrcRec var) (Some vd) kv))))))))"

section \<open>Predicates and example inputs of the claims\<close>

text \<open>The shape invariant: the instance has its storage and both tables, the storage is
  a matrix, the row table is as long as the matrix has rows and the column table as
  long as it has columns, and every column of a table has the table's length.\<close>

definition table_rows :: "heap \<Rightarrow> addr \<Rightarrow> nat \<Rightarrow> bool" where
  "table_rows h t n =
     (case get_tab h t of
        None \<Rightarrow> False
      | Some tb \<Rightarrow> t_len tb = n \<and> list_all (\<lambda>c. length c = n) (t_cols tb))"

definition shape_invariant :: "heap \<Rightarrow> addr \<Rightarrow> bool" where
  "shape_invariant h self =
     (case get_ann h self of
        None \<Rightarrow> False
      | Some a \<Rightarrow>
     (case (ad_X a, ad_smp a, ad_var a) of
        (Some x, Some s, Some v) \<Rightarrow>
          (case get_arr h x of
             None \<Rightarrow> False
           | Some xa \<Rightarrow>
               (case a_shape xa of
                  [nr_smp, nr_var] \<Rightarrow> table_rows h s nr_smp \<and> table_rows h v nr_var
                | sh \<Rightarrow> False))
      | other \<Rightarrow> False))"

text \<open>Example inputs: the heap with no object, and a heap after
  \<^verbatim>\<open>np.array\<close>, \<^verbatim>\<open>ma.array\<close> or a sparse constructor has made an array of the given class,
  shape and elements (a buffer, and the array object over it).\<close>

definition empty_heap :: heap where
  "empty_heap = []"

definition new_array :: "heap \<Rightarrow> pyclass \<Rightarrow> nat list \<Rightarrow> val list \<Rightarrow> addr \<times> heap" where
  "new_array h cls shape vals =
     (let (b, h1) = alloc h (OBuf vals)
      in alloc h1 (OArr \<lparr>a_cls = cls, a_shape = shape, a_buf = b,
                         a_offs = [0..<length vals], a_names = None\<rparr>))"

text \<open>\<^verbatim>\<open>np.array([[1, 2], [3, 4]])\<close> (the array of the module's own tests): the buffer is
  object \<open>0\<close>, the array object \<open>1\<close>.\<close>

definition heap_2x2 :: heap where
  "heap_2x2 = snd (new_array empty_heap NdArray [2, 2] [IntV 1, IntV 2, IntV 3, IntV 4])"

text \<open>\<^verbatim>\<open>self.storage_type\<close>.\<close>

definition storage_type_of :: "heap \<Rightarrow> addr \<Rightarrow> StorageType option" where
  "storage_type_of h self = (case get_ann h self of None \<Rightarrow> None | Some a \<Rightarrow> ad_storage_type a)"

text \<open>The other inputs of the module's tests: a masked array, a sparse matrix, and for
  an unsupported type a plain list; and a rank-1 array of length 3.\<close>

definition heap_masked_2x2 :: heap where
  "heap_masked_2x2 = snd (new_array empty_heap MaskedArray [2, 2] [IntV 1, IntV 2, IntV 3, IntV 4])"

definition heap_sparse_2x2 :: heap where
  "heap_sparse_2x2 = snd (new_array empty_heap SpMatrix [2, 2] [IntV 1, IntV 0, IntV 0, IntV 1])"

definition heap_list :: heap where
  "heap_list = push empty_heap (OPy PyList)"

definition heap_rank1 :: heap where
  "heap_rank1 = snd (new_array empty_heap NdArray [3] [IntV 7, IntV 8, IntV 9])"

text \<open>\<^verbatim>\<open>M.smp[key] = value\<close>, \<^verbatim>\<open>M.var[key] = value\<close>, \<^verbatim>\<open>M.smp.columns\<close> and
  \<^verbatim>\<open>M.var.columns\<close>: the attribute is read, then the table's method runs.\<close>

definition smp_setitem :: "heap \<Rightarrow> addr \<Rightarrow> string \<Rightarrow> val list \<Rightarrow> unit res" where
  "smp_setitem h self key value =
     (case attr_smp h self of Inl e \<Rightarrow> Inl (e, h) | Inr t \<Rightarrow> BoundRecArr_setitem h t key value)"

definition var_setitem :: "heap \<Rightarrow> addr \<Rightarrow> string \<Rightarrow> val list \<Rightarrow> unit res" where
  "var_setitem h self key value =
     (case attr_var h self of Inl e \<Rightarrow> Inl (e, h) | Inr t \<Rightarrow> BoundRecArr_setitem h t key value)"

definition smp_columns :: "heap \<Rightarrow> addr \<Rightarrow> error + string list" where
  "smp_columns h self = (case attr_smp h self of Inl e \<Rightarrow> Inl e | Inr t \<Rightarrow> columns h t)"

definition var_columns :: "heap \<Rightarrow> addr \<Rightarrow> error + string list" where
  "var_columns h self = (case attr_var h self of Inl e \<Rightarrow> Inl e | Inr t \<Rightarrow> columns h t)"

text \<open>\<^verbatim>\<open>np.zeros((0, 2))\<close>: a matrix with no row and two columns.\<close>

definition heap_0x2 :: heap where
  "heap_0x2 = snd (new_array empty_heap NdArray [0, 2] [])"



section \<open>Notions used in the proofs\<close>

text \<open>\<open>frame h h' M\<close>: going from \<open>h\<close> to \<open>h'\<close> allocated objects only at new addresses and
  changed no object of \<open>h\<close> outside \<open>M\<close>.\<close>

definition frame :: "heap \<Rightarrow> heap \<Rightarrow> addr set \<Rightarrow> bool" where
  "frame h h' M = (next_addr h \<le> next_addr h' \<and> (\<forall>a. a < next_addr h \<and> a \<notin> M \<longrightarrow> objs h' a = objs h a))"

text \<open>The heap of \<^verbatim>\<open>BoundRecArr.__new__\<close> at line 58: the dtype object and the new array
  are allocated, no field is assigned yet.\<close>

definition fresh_table :: "heap \<Rightarrow> string list \<Rightarrow> nat \<Rightarrow> addr option \<Rightarrow> string \<Rightarrow> heap" where
  "fresh_table h names n par nc =
     snd (alloc (snd (alloc h (ODtype names)))
            (OTab \<lparr>t_dtype = next_addr h, t_cols = map (\<lambda>x. replicate n Unset) names,
                   t_len = n, t_parent = Some par, t_name_col = Some nc\<rparr>))"

definition assign_cols :: "string list \<Rightarrow> val list list \<Rightarrow> (string \<times> val list) list \<Rightarrow> val list list" where
  "assign_cols names cs kvs = foldl (\<lambda>cs (k, v). cs[the (field_index names k) := v]) cs kvs"

definition table_is :: "heap \<Rightarrow> addr \<Rightarrow> addr \<Rightarrow> addr option \<Rightarrow> string \<Rightarrow> bool" where
  "table_is h arr d par nc =
     (\<exists>t. get_tab h arr = Some t \<and> t_dtype t = d \<and> t_parent t = Some par \<and> t_name_col t = Some nc
          \<and> list_all (\<lambda>c. length c = t_len t) (t_cols t))"

definition vis_fresh :: "heap \<Rightarrow> addr option \<Rightarrow> bool" where
  "vis_fresh h vis_arg =
     (case vis_arg of
        None \<Rightarrow> True
      | Some d \<Rightarrow> get_dict h d = Some [] \<or> (\<exists>v. get_val h d = Some v \<and> val_truth v = Some False))"

section \<open>Heap lemmas\<close>

lemma next_push [simp]: "next_addr (push h ob) = Suc (next_addr h)"
  by (simp add: next_addr_def push_def)

lemma objs_push [simp]: "objs (push h ob) a = (if a = next_addr h then Some ob else objs h a)"
  by (auto simp: objs_def push_def next_addr_def nth_append)

lemma next_store [simp]: "next_addr (store h a ob) = next_addr h"
  by (simp add: next_addr_def store_def)

lemma objs_store: "objs (store h a ob) b = (if b = a \<and> a < next_addr h then Some ob else objs h b)"
  by (auto simp: objs_def store_def next_addr_def)

lemma objs_Some_lt: "objs h a = Some ob \<Longrightarrow> a < next_addr h"
  by (simp add: objs_def next_addr_def split: if_splits)

lemma objs_beyond [simp]: "next_addr h \<le> a \<Longrightarrow> objs h a = None"
  by (simp add: objs_def next_addr_def)

lemma heap_eqI: "next_addr h = next_addr h' \<Longrightarrow> (\<And>a. a < next_addr h \<Longrightarrow> objs h a = objs h' a) \<Longrightarrow> h = h'"
  by (auto simp: objs_def next_addr_def intro!: nth_equalityI)

lemma get_lt:
  "get_arr h a = Some xa \<Longrightarrow> a < next_addr h"
  "get_buf h a = Some b \<Longrightarrow> a < next_addr h"
  "get_dtype h a = Some ns \<Longrightarrow> a < next_addr h"
  "get_tab h a = Some t \<Longrightarrow> a < next_addr h"
  "get_dict h a = Some d \<Longrightarrow> a < next_addr h"
  "get_ann h a = Some an \<Longrightarrow> a < next_addr h"
  "get_val h a = Some v \<Longrightarrow> a < next_addr h"
  by (auto simp: get_arr_def get_buf_def get_dtype_def get_tab_def get_dict_def get_ann_def get_val_def
        dest: objs_Some_lt split: option.splits obj.splits)

lemma frame_refl: "frame h h M"
  by (simp add: frame_def)

lemma frame_trans: "frame h h1 M \<Longrightarrow> frame h1 h2 M \<Longrightarrow> frame h h2 M"
  by (auto simp: frame_def)

lemma frame_mono: "frame h h' M \<Longrightarrow> M \<subseteq> N \<Longrightarrow> frame h h' N"
  by (auto simp: frame_def)

lemma frame_store: "a \<in> M \<or> next_addr h \<le> a \<Longrightarrow> frame h (store h a ob) M"
  by (auto simp: frame_def objs_store)

lemma frame_alloc: "alloc h ob = (a, h') \<Longrightarrow> frame h h' M \<and> a = next_addr h \<and> next_addr h' = Suc a"
  by (auto simp: frame_def alloc_def)

lemma frame_set_ann: "p \<in> M \<or> next_addr h \<le> p \<Longrightarrow> frame h (set_ann h p f) M"
  by (auto simp: set_ann_def frame_store frame_refl split: option.splits)

lemma ndarray_setitem_field_frame:
  "ndarray_setitem_field h arr k v = Inr (u, h') \<Longrightarrow> frame h h' {arr} \<and> next_addr h' = next_addr h"
  by (auto simp: ndarray_setitem_field_def frame_store next_store split: option.splits if_splits)

lemma setitem_own_field_frame:
  "setitem_own_field h arr k v = Inr (u, h') \<Longrightarrow> frame h h' {arr} \<and> next_addr h' = next_addr h"
  by (auto simp: setitem_own_field_def dest: ndarray_setitem_field_frame split: option.splits sum.splits)

lemma fill_fields_frame:
  "fill_fields h arr kvs = Inr (u, h') \<Longrightarrow> frame h h' {arr} \<and> next_addr h' = next_addr h"
proof (induction kvs arbitrary: h)
  case Nil
  then show ?case by (simp add: frame_refl)
next
  case (Cons kv kvs)
  obtain k v where kv: "kv = (k, v)" by (cases kv)
  from Cons.prems kv obtain h1 where
    s1: "setitem_own_field h arr k v = Inr ((), h1)" and s2: "fill_fields h1 arr kvs = Inr (u, h')"
    by (auto split: sum.splits)
  from setitem_own_field_frame[OF s1] Cons.IH[OF s2] show ?case
    by (auto intro: frame_trans)
qed

lemma BoundRecArr_new_Inr:
  assumes "BoundRecArr_new h src n nc par = Inr (arr, h')"
  obtains names cols c0 cs u where
    "source_cols h src n nc = Inr (names, cols)" and "cols = c0 # cs" and
    "fill_fields (fresh_table h names (length c0) par nc) (Suc (next_addr h)) (zip names cols) = Inr (u, h')"
    and "arr = Suc (next_addr h)"
  using assms
  by (auto simp: BoundRecArr_new_def fresh_table_def alloc_def Let_def split: sum.splits list.splits prod.splits)

lemma BoundRecArr_new_frame:
  assumes "BoundRecArr_new h src n nc par = Inr (arr, h')"
  shows "frame h h' M \<and> arr = Suc (next_addr h) \<and> next_addr h' = Suc (Suc (next_addr h))"
proof -
  from assms obtain names cols c0 cs u where
    sc: "source_cols h src n nc = Inr (names, cols)" and cols: "cols = c0 # cs" and
    ff: "fill_fields (fresh_table h names (length c0) par nc) (Suc (next_addr h)) (zip names cols) = Inr (u, h')"
    and arr: "arr = Suc (next_addr h)"
    by (rule BoundRecArr_new_Inr)
  from fill_fields_frame[OF ff] show ?thesis using arr
    by (auto simp: frame_def alloc_def fresh_table_def)
qed

lemma get_ann_set_ann: "get_ann h p = Some a \<Longrightarrow> get_ann (set_ann h p f) p = Some (f a)"
  by (auto simp: set_ann_def get_ann_def objs_store dest: objs_Some_lt split: option.splits obj.splits)

lemma set_ann_other: "q \<noteq> p \<Longrightarrow> objs (set_ann h p f) q = objs h q"
  by (simp add: set_ann_def objs_store split: option.splits)

lemma next_set_ann: "next_addr (set_ann h p f) = next_addr h"
  by (simp add: set_ann_def objs_store split: option.splits)

lemma frame_objs: "frame h h' M \<Longrightarrow> a < next_addr h \<Longrightarrow> a \<notin> M \<Longrightarrow> objs h' a = objs h a"
  by (simp add: frame_def)

lemma frame_next: "frame h h' M \<Longrightarrow> next_addr h \<le> next_addr h'"
  by (simp add: frame_def)

lemma ndarray_setitem_field_rows:
  "ndarray_setitem_field h arr k v = Inr (u, h') \<Longrightarrow> table_rows h arr n \<Longrightarrow> table_rows h' arr n"
  apply (auto simp: ndarray_setitem_field_def table_rows_def get_tab_def objs_store list_all_iff split: option.splits if_splits obj.splits dest!: set_update_subset_insert[THEN subsetD])
  done

lemma fill_fields_rows:
  "fill_fields h arr kvs = Inr (u, h') \<Longrightarrow> table_rows h arr n \<Longrightarrow> table_rows h' arr n"
proof (induction kvs arbitrary: h)
  case Nil
  then show ?case by simp
next
  case (Cons kv kvs)
  obtain k v where kv: "kv = (k, v)" by (cases kv)
  from Cons.prems kv obtain h1 where
    s1: "setitem_own_field h arr k v = Inr ((), h1)" and s2: "fill_fields h1 arr kvs = Inr (u, h')"
    by (auto split: sum.splits)
  from s1 have "ndarray_setitem_field h arr k v = Inr ((), h1)"
    by (auto simp: setitem_own_field_def split: option.splits sum.splits)
  from ndarray_setitem_field_rows[OF this Cons.prems(2)] Cons.IH[OF s2] show ?case by simp
qed

lemma BoundRecArr_new_rows:
  assumes "BoundRecArr_new h src n nc par = Inr (arr, h')"
  shows "\<exists>k. table_rows h' arr k"
proof -
  from assms obtain names cols c0 cs u where
    sc: "source_cols h src n nc = Inr (names, cols)" and cols: "cols = c0 # cs" and
    ff: "fill_fields (fresh_table h names (length c0) par nc) (Suc (next_addr h)) (zip names cols) = Inr (u, h')"
    and arr: "arr = Suc (next_addr h)"
    by (rule BoundRecArr_new_Inr)
  have "table_rows (fresh_table h names (length c0) par nc) (Suc (next_addr h)) (length c0)"
    by (simp add: table_rows_def alloc_def get_tab_def list_all_iff fresh_table_def)
  from fill_fields_rows[OF ff this] arr show ?thesis by blast
qed

lemma get_ann_frame: "frame h h' M \<Longrightarrow> p < next_addr h \<Longrightarrow> p \<notin> M \<Longrightarrow> get_ann h' p = get_ann h p"
  by (simp add: get_ann_def frame_def)

lemma get_arr_frame: "frame h h' M \<Longrightarrow> p < next_addr h \<Longrightarrow> p \<notin> M \<Longrightarrow> get_arr h' p = get_arr h p"
  by (simp add: get_arr_def frame_def)

lemma get_tab_frame: "frame h h' M \<Longrightarrow> p < next_addr h \<Longrightarrow> p \<notin> M \<Longrightarrow> get_tab h' p = get_tab h p"
  by (simp add: get_tab_def frame_def)

lemma table_rows_frame: "frame h h' M \<Longrightarrow> p < next_addr h \<Longrightarrow> p \<notin> M \<Longrightarrow> table_rows h' p n = table_rows h p n"
  by (simp add: table_rows_def get_tab_frame)

lemma get_arr_set_ann: "get_arr (set_ann h p f) q = get_arr h q"
  by (auto simp: set_ann_def get_arr_def get_ann_def objs_store split: option.splits obj.splits)

lemma get_tab_set_ann: "get_tab (set_ann h p f) q = get_tab h q"
  by (auto simp: set_ann_def get_tab_def get_ann_def objs_store split: option.splits obj.splits)

lemma table_rows_set_ann: "table_rows (set_ann h p f) q n = table_rows h q n"
  by (simp add: table_rows_def get_tab_set_ann)

lemma get_ann_set_ann_other: "q \<noteq> p \<Longrightarrow> get_ann (set_ann h p f) q = get_ann h q"
  by (simp add: get_ann_def set_ann_other)

lemma get_store_other:
  "q \<noteq> p \<Longrightarrow> get_ann (store h p ob) q = get_ann h q"
  "q \<noteq> p \<Longrightarrow> get_arr (store h p ob) q = get_arr h q"
  "q \<noteq> p \<Longrightarrow> get_tab (store h p ob) q = get_tab h q"
  "q \<noteq> p \<Longrightarrow> get_dtype (store h p ob) q = get_dtype h q"
  "q \<noteq> p \<Longrightarrow> get_dict (store h p ob) q = get_dict h q"
  "q \<noteq> p \<Longrightarrow> get_buf (store h p ob) q = get_buf h q"
  by (simp_all add: get_ann_def get_arr_def get_tab_def get_dtype_def get_dict_def get_buf_def objs_store)

lemma get_store_same:
  "p < next_addr h \<Longrightarrow> get_ann (store h p (OAnn a)) p = Some a"
  "p < next_addr h \<Longrightarrow> get_arr (store h p (OArr x)) p = Some x"
  "p < next_addr h \<Longrightarrow> get_tab (store h p (OTab t)) p = Some t"
  "p < next_addr h \<Longrightarrow> get_dtype (store h p (ODtype ns)) p = Some ns"
  "p < next_addr h \<Longrightarrow> get_dict (store h p (ODict d)) p = Some d"
  "p < next_addr h \<Longrightarrow> get_buf (store h p (OBuf b)) p = Some b"
  by (simp_all add: get_ann_def get_arr_def get_tab_def get_dtype_def get_dict_def get_buf_def objs_store)

lemma init_storage_Inr:
  assumes "init_storage h self x = Inr ((r, c), h')" and "get_ann h self = Some a" and "x \<noteq> self"
  shows "\<exists>st xa0 xa. find_storage_type (class_of h x) = Some st \<and> get_arr h x = Some xa0
           \<and> xa = (if length (a_shape xa0) = 1 then xa0\<lparr>a_shape := [a_shape xa0 ! 0, 1]\<rparr> else xa0)
           \<and> get_arr h' x = Some xa \<and> a_shape xa = [r, c]
           \<and> get_ann h' self = Some (a\<lparr>ad_storage_type := Some st, ad_X := Some x\<rparr>)
           \<and> next_addr h' = next_addr h
           \<and> (\<forall>q. q \<noteq> self \<and> q \<noteq> x \<longrightarrow> objs h' q = objs h q)"
proof -
  from assms(1) obtain st where st: "find_storage_type (class_of h x) = Some st"
    by (auto simp: init_storage_def split: option.splits)
  define h1 where "h1 = set_ann h self (\<lambda>a. a\<lparr>ad_storage_type := Some st\<rparr>)"
  from assms(1) st obtain xa0 where xa0: "get_arr h1 x = Some xa0"
    by (auto simp: init_storage_def h1_def Let_def split: option.splits)
  define xa where "xa = (if length (a_shape xa0) = 1 then xa0\<lparr>a_shape := [a_shape xa0 ! 0, 1]\<rparr> else xa0)"
  define h2 where "h2 = (if length (a_shape xa0) = 1 then store h1 x (OArr xa) else h1)"
  from assms(1) st xa0 have sh: "a_shape xa = [r, c]" and h': "h' = set_ann h2 self (\<lambda>a. a\<lparr>ad_X := Some x\<rparr>)"
    by (auto simp: init_storage_def h1_def[symmetric] Let_def xa_def h2_def
          split: option.splits list.splits if_splits)
  have a1: "get_ann h1 self = Some (a\<lparr>ad_storage_type := Some st\<rparr>)"
    by (simp add: h1_def get_ann_set_ann assms(2))
  have a2: "get_ann h2 self = Some (a\<lparr>ad_storage_type := Some st\<rparr>)"
    using a1 assms(3) by (simp add: h2_def get_store_other)
  have x2: "get_arr h2 x = Some xa"
    using xa0 get_lt(1)[OF xa0] by (auto simp: h2_def get_store_same xa_def)
  have "get_arr h x = Some xa0" using xa0 by (simp add: h1_def get_arr_set_ann)
  moreover have "get_arr h' x = Some xa" using x2 by (simp add: h' get_arr_set_ann)
  moreover have "get_ann h' self = Some (a\<lparr>ad_storage_type := Some st, ad_X := Some x\<rparr>)"
    using a2 by (simp add: h' get_ann_set_ann)
  moreover have "next_addr h' = next_addr h"
    by (simp add: h' h2_def h1_def next_set_ann next_store)
  moreover have "\<forall>q. q \<noteq> self \<and> q \<noteq> x \<longrightarrow> objs h' q = objs h q"
    by (simp add: h' h2_def h1_def set_ann_other objs_store)
  ultimately show ?thesis using st sh xa_def by blast
qed

section \<open>The constructor and the shape invariant\<close>

lemma check_dimensions_Inr:
  assumes "check_dimensions h x s v = Inr (u, h')"
  shows "h' = h \<and> (\<exists>xa ts tv. get_arr h x = Some xa \<and> get_tab h s = Some ts \<and> get_tab h v = Some tv
            \<and> a_shape xa = [t_len ts, t_len tv])"
  using assms
  by (auto simp: check_dimensions_def split: option.splits list.splits if_splits)

lemma table_rows_len: "table_rows h t k \<Longrightarrow> get_tab h t = Some tb \<Longrightarrow> t_len tb = k"
  by (simp add: table_rows_def)

lemma init_tables_Inr:
  assumes it: "init_tables h self x sa va r c = Inr (u, h')"
    and a: "get_ann h self = Some a" and lt: "self < next_addr h" "x < next_addr h" and ne: "x \<noteq> self"
  shows "\<exists>s v xa. get_ann h' self = Some (a\<lparr>ad_smp := Some s, ad_var := Some v\<rparr>)
          \<and> get_arr h' x = Some xa \<and> get_arr h x = Some xa
          \<and> table_rows h' s (a_shape xa ! 0) \<and> table_rows h' v (a_shape xa ! 1) \<and> length (a_shape xa) = 2
          \<and> next_addr h \<le> s \<and> s < next_addr h' \<and> next_addr h \<le> v \<and> v < next_addr h' \<and> s \<noteq> v
          \<and> frame h h' {self}"
proof -
  from it obtain s h1 where n1: "BoundRecArr_new h sa r SMP_NAMES (Some self) = Inr (s, h1)"
    by (auto simp: init_tables_def split: sum.splits)
  define h2 where "h2 = set_ann h1 self (\<lambda>a. a\<lparr>ad_smp := Some s\<rparr>)"
  from it n1 obtain v h3 where n2: "BoundRecArr_new h2 va c VAR_NAMES (Some self) = Inr (v, h3)"
    by (auto simp: init_tables_def h2_def Let_def split: sum.splits)
  define h4 where "h4 = set_ann h3 self (\<lambda>a. a\<lparr>ad_var := Some v\<rparr>)"
  from it n1 n2 have cd: "check_dimensions h4 x s v = Inr (u, h')"
    by (auto simp: init_tables_def h2_def h4_def Let_def split: sum.splits)
  from check_dimensions_Inr[OF cd] obtain xa ts tv where h': "h' = h4" and
    xa: "get_arr h4 x = Some xa" and ts: "get_tab h4 s = Some ts" and tv: "get_tab h4 v = Some tv"
    and sh: "a_shape xa = [t_len ts, t_len tv]" by blast
  from BoundRecArr_new_frame[OF n1, of "{self}"] have f1: "frame h h1 {self}" and s: "s = Suc (next_addr h)"
    and nx1: "next_addr h1 = Suc (Suc (next_addr h))" by auto
  have f12: "frame h1 h2 {self}" by (simp add: h2_def frame_set_ann)
  from BoundRecArr_new_frame[OF n2, of "{self}"] have f2: "frame h2 h3 {self}" and v: "v = Suc (next_addr h2)"
    and nx3: "next_addr h3 = Suc (Suc (next_addr h2))" by auto
  have f34: "frame h3 h4 {self}" by (simp add: h4_def frame_set_ann)
  have nx2: "next_addr h2 = next_addr h1" by (simp add: h2_def next_set_ann)
  have nx4: "next_addr h4 = next_addr h3" by (simp add: h4_def next_set_ann)
  have fr: "frame h h4 {self}"
    using f1 f12 f2 f34 by (blast intro: frame_trans)
  from BoundRecArr_new_rows[OF n1] obtain k1 where k1: "table_rows h1 s k1" by blast
  from BoundRecArr_new_rows[OF n2] obtain k2 where k2: "table_rows h3 v k2" by blast
  have sne: "s \<noteq> self" using s lt by simp
  have "table_rows h2 s k1" using k1 by (simp add: h2_def table_rows_set_ann)
  then have "table_rows h3 s k1"
    using table_rows_frame[OF f2, of s k1] sne s nx1 nx2 by simp
  then have r1: "table_rows h4 s k1" by (simp add: h4_def table_rows_set_ann)
  have r2: "table_rows h4 v k2" using k2 by (simp add: h4_def table_rows_set_ann)
  from table_rows_len[OF r1 ts] table_rows_len[OF r2 tv] sh
  have rows: "table_rows h4 s (a_shape xa ! 0)" "table_rows h4 v (a_shape xa ! 1)" "length (a_shape xa) = 2"
    using r1 r2 by simp_all
  have xh: "get_arr h x = Some xa"
    using get_arr_frame[OF fr, of x] lt ne xa by simp
  have "frame h h1 {}" using BoundRecArr_new_frame[OF n1, of "{}"] by simp
  then have "get_ann h1 self = get_ann h self"
    using lt by (intro get_ann_frame) auto
  then have g2: "get_ann h2 self = Some (a\<lparr>ad_smp := Some s\<rparr>)"
    by (simp add: h2_def get_ann_set_ann a)
  have "frame h2 h3 {}" using BoundRecArr_new_frame[OF n2, of "{}"] by simp
  then have "get_ann h3 self = get_ann h2 self"
    using lt nx1 nx2 by (intro get_ann_frame) auto
  then have "get_ann h4 self = Some (a\<lparr>ad_smp := Some s, ad_var := Some v\<rparr>)"
    by (simp add: h4_def get_ann_set_ann g2)
  then have "get_ann h' self = Some (a\<lparr>ad_smp := Some s, ad_var := Some v\<rparr>)
          \<and> get_arr h' x = Some xa \<and> get_arr h x = Some xa
          \<and> table_rows h' s (a_shape xa ! 0) \<and> table_rows h' v (a_shape xa ! 1) \<and> length (a_shape xa) = 2
          \<and> next_addr h \<le> s \<and> s < next_addr h' \<and> next_addr h \<le> v \<and> v < next_addr h' \<and> s \<noteq> v
          \<and> frame h h' {self}"
    using rows xh xa h' s v nx1 nx2 nx3 nx4 fr by simp
  then show ?thesis by blast
qed

lemma vis_or_empty_Inr:
  assumes "vis_or_empty h vis = Inr (vd, h')"
  shows "frame h h' M \<and> next_addr h' \<le> Suc (next_addr h)"
  using assms
  by (auto simp: vis_or_empty_def alloc_def frame_def split: option.splits if_splits)

lemma init_meta_Inr:
  assumes im: "init_meta h self vis kw = Inr (u, h')"
    and a: "get_ann h self = Some a" and lt: "self < next_addr h"
  shows "\<exists>vd m. get_ann h' self = Some (a\<lparr>ad_vis := Some vd, ad_meta := Some m\<rparr>) \<and> frame h h' {self}
           \<and> get_dict h' m = Some kw \<and> next_addr h \<le> m"
proof -
  from im obtain vd h1 where v: "vis_or_empty h vis = Inr (vd, h1)"
    by (auto simp: init_meta_def split: sum.splits)
  define h2 where "h2 = set_ann h1 self (\<lambda>a. a\<lparr>ad_vis := Some vd\<rparr>)"
  define m where "m = next_addr h2"
  define h3 where "h3 = snd (alloc h2 (ODict kw))"
  from im v have h': "h' = set_ann h3 self (\<lambda>a. a\<lparr>ad_meta := Some m\<rparr>)"
    by (auto simp: init_meta_def h2_def h3_def m_def Let_def alloc_def split: sum.splits prod.splits)
  from vis_or_empty_Inr[OF v] have f1: "frame h h1 {self}" "frame h h1 {}" by auto
  have a1: "get_ann h1 self = Some a" using get_ann_frame[OF f1(2)] lt a by simp
  have a2: "get_ann h2 self = Some (a\<lparr>ad_vis := Some vd\<rparr>)" by (simp add: h2_def get_ann_set_ann a1)
  have lt2: "self < next_addr h2" using lt frame_next[OF f1(1)] by (simp add: h2_def next_set_ann)
  have f23: "frame h2 h3 {self}" by (simp add: h3_def alloc_def frame_def)
  have a3: "get_ann h3 self = Some (a\<lparr>ad_vis := Some vd\<rparr>)"
    using get_ann_frame[of h2 h3 "{}" self] lt2 a2 by (simp add: h3_def alloc_def frame_def)
  have "get_ann h' self = Some (a\<lparr>ad_vis := Some vd, ad_meta := Some m\<rparr>)"
    by (simp add: h' get_ann_set_ann a3)
  moreover have "frame h h' {self}"
    using f1(1) f23 by (auto simp: h' h2_def intro!: frame_set_ann intro: frame_trans)
  moreover have "get_dict h' m = Some kw"
    using lt2 by (simp add: h' h3_def m_def alloc_def get_dict_def set_ann_other)
  moreover have "next_addr h \<le> m" using frame_next[OF f1(1)] by (simp add: m_def h2_def next_set_ann)
  ultimately show ?thesis by blast
qed

lemma AnnData_init_shape:
  assumes "AnnData_init h0 x sa va vis kw = Inr (p, h')" and "x < next_addr h0"
  shows "shape_invariant h' p"
proof -
  define h1 where "h1 = snd (alloc h0 (OAnn new_anndata))"
  have p0: "get_ann h1 (next_addr h0) = Some new_anndata" "next_addr h1 = Suc (next_addr h0)"
    by (simp_all add: h1_def alloc_def get_ann_def)
  from assms(1) obtain r c h2 u h3 u' where p: "p = next_addr h0" and
    st: "init_storage h1 p x = Inr ((r, c), h2)" and
    it: "init_tables h2 p x sa va r c = Inr (u, h3)" and
    im: "init_meta h3 p vis kw = Inr (u', h')"
    by (auto simp: AnnData_init_def h1_def alloc_def Let_def split: sum.splits prod.splits)
  have ne: "x \<noteq> p" using assms(2) p by simp
  from init_storage_Inr[OF st _ ne] p0 p obtain a2 where a2: "get_ann h2 p = Some a2"
    and X2: "ad_X a2 = Some x" and nx2: "next_addr h2 = next_addr h1"
    by auto
  have lt2: "p < next_addr h2" "x < next_addr h2" using nx2 p0 p assms(2) by simp_all
  from init_tables_Inr[OF it a2 lt2 ne] obtain s v xa where
    a3: "get_ann h3 p = Some (a2\<lparr>ad_smp := Some s, ad_var := Some v\<rparr>)" and
    xa: "get_arr h3 x = Some xa" and rows: "table_rows h3 s (a_shape xa ! 0)" "table_rows h3 v (a_shape xa ! 1)"
    and len: "length (a_shape xa) = 2" and bnd: "next_addr h2 \<le> s" "s < next_addr h3" "next_addr h2 \<le> v" "v < next_addr h3"
    and f23: "frame h2 h3 {p}" by blast
  have lt3: "p < next_addr h3" "x < next_addr h3" using lt2 frame_next[OF f23] by simp_all
  from init_meta_Inr[OF im a3 lt3(1)] obtain vd m where
    a4: "get_ann h' p = Some (a2\<lparr>ad_smp := Some s, ad_var := Some v, ad_vis := Some vd, ad_meta := Some m\<rparr>)"
    and f34: "frame h3 h' {p}" by blast
  have "get_arr h' x = Some xa" using get_arr_frame[OF f34 lt3(2)] ne xa by simp
  moreover have "table_rows h' s (a_shape xa ! 0)" "table_rows h' v (a_shape xa ! 1)"
    using table_rows_frame[OF f34] bnd lt2 rows by simp_all
  moreover obtain n1 n2 where "a_shape xa = [n1, n2]" using len
    by (cases "a_shape xa"; cases "tl (a_shape xa)") auto
  ultimately show ?thesis using a4 X2
    by (simp add: shape_invariant_def)
qed

lemma np_getitem2_frame:
  assumes "np_getitem2 h x s v = Inr (d, h1)"
  shows "frame h h1 M \<and> next_addr h \<le> d \<and> d < next_addr h1"
  using assms
  by (auto simp: np_getitem2_def alloc_def frame_def Let_def
       split: option.splits list.splits if_splits sum.splits prod.splits)

lemma rec_getitem_frame:
  assumes "rec_getitem h t s = Inr (r, h1)"
  shows "frame h h1 M \<and> r = next_addr h \<and> next_addr h1 = Suc r"
  using assms
  by (auto simp: rec_getitem_def alloc_def frame_def split: option.splits sum.splits)

lemma np_T_frame:
  assumes "np_T h x = Inr (r, h1)"
  shows "frame h h1 M \<and> r = next_addr h \<and> next_addr h1 = Suc r"
  using assms
  by (auto simp: np_T_def alloc_def frame_def split: option.splits list.splits if_splits)

lemma AnnData_call_Inr: "AnnData_call h x sa va vis kw = Inr r \<Longrightarrow> AnnData_init h x sa va vis kw = Inr r"
  by (auto simp: AnnData_call_def split: option.splits)

lemma getitem_matrix_Inr:
  assumes "getitem_matrix h self idx = Inr (p, h')"
  obtains smp var x data h1 st smp_meta h2 vt var_meta h3 vd kv where
    "unpack_index idx = (smp, var)" and "attr_X h self = Inr x" and
    "np_getitem2 h x smp var = Inr (data, h1)" and "attr_smp h1 self = Inr st" and
    "rec_getitem h1 st smp = Inr (smp_meta, h2)" and "attr_var h2 self = Inr vt" and
    "rec_getitem h2 vt var = Inr (var_meta, h3)" and "attr_vis h3 self = Inr vd" and
    "meta_items h3 self = Inr kv" and
    "AnnData_call h3 data (SrcRec smp_meta) (SrcRec var_meta) (Some vd) kv = Inr (p, h')"
proof -
  obtain smp var where u: "unpack_index idx = (smp, var)" by (cases "unpack_index idx")
  from assms u obtain x where x: "attr_X h self = Inr x"
    by (auto simp: getitem_matrix_def split: sum.splits)
  from assms u x obtain data h1 where d: "np_getitem2 h x smp var = Inr (data, h1)"
    by (auto simp: getitem_matrix_def split: sum.splits)
  from assms u x d obtain st where st: "attr_smp h1 self = Inr st"
    by (auto simp: getitem_matrix_def split: sum.splits)
  from assms u x d st obtain smp_meta h2 where sm: "rec_getitem h1 st smp = Inr (smp_meta, h2)"
    by (auto simp: getitem_matrix_def split: sum.splits)
  from assms u x d st sm obtain vt where vt: "attr_var h2 self = Inr vt"
    by (auto simp: getitem_matrix_def split: sum.splits)
  from assms u x d st sm vt obtain var_meta h3 where vm: "rec_getitem h2 vt var = Inr (var_meta, h3)"
    by (auto simp: getitem_matrix_def split: sum.splits)
  from assms u x d st sm vt vm obtain vd where vd: "attr_vis h3 self = Inr vd"
    by (auto simp: getitem_matrix_def split: sum.splits option.splits list.splits if_splits)
  from assms u x d st sm vt vm vd obtain kv where kv: "meta_items h3 self = Inr kv"
    by (auto simp: getitem_matrix_def split: sum.splits option.splits list.splits if_splits)
  from assms u x d st sm vt vm vd kv
  have "AnnData_call h3 data (SrcRec smp_meta) (SrcRec var_meta) (Some vd) kv = Inr (p, h')"
    by (auto simp: getitem_matrix_def split: sum.splits option.splits list.splits if_splits)
  with u x d st sm vt vm vd kv show ?thesis by (rule that)
qed

lemma getitem_matrix_shape:
  assumes "getitem_matrix h self idx = Inr (p, h')"
  shows "shape_invariant h' p"
proof -
  from assms obtain smp var x data h1 st smp_meta h2 vt var_meta h3 vd kv where
    "unpack_index idx = (smp, var)" and "attr_X h self = Inr x" and
    d: "np_getitem2 h x smp var = Inr (data, h1)" and "attr_smp h1 self = Inr st" and
    sm: "rec_getitem h1 st smp = Inr (smp_meta, h2)" and "attr_var h2 self = Inr vt" and
    vm: "rec_getitem h2 vt var = Inr (var_meta, h3)" and "attr_vis h3 self = Inr vd" and
    "meta_items h3 self = Inr kv" and
    c: "AnnData_call h3 data (SrcRec smp_meta) (SrcRec var_meta) (Some vd) kv = Inr (p, h')"
    by (rule getitem_matrix_Inr)
  from np_getitem2_frame[OF d, of "{}"] rec_getitem_frame[OF sm, of "{}"] rec_getitem_frame[OF vm, of "{}"]
  have "data < next_addr h3" by simp
  with AnnData_call_Inr[OF c] show ?thesis by (rule AnnData_init_shape)
qed

lemma AnnData_getitem_shape:
  "AnnData_getitem h self idx = Inr (GotAnn p, h') \<Longrightarrow> shape_invariant h' p"
  by (auto simp: AnnData_getitem_def dest: getitem_matrix_shape split: index.splits key.splits sum.splits option.splits)

lemma AnnData_transpose_Inr:
  assumes "AnnData_transpose h self = Inr (p, h')"
  obtains vt smp h1 st var h2 x xt h3 vd kv where
    "attr_var h self = Inr vt" and "copy_renamed h vt VAR_NAMES SMP_NAMES = Inr (smp, h1)" and
    "attr_smp h1 self = Inr st" and "copy_renamed h1 st SMP_NAMES VAR_NAMES = Inr (var, h2)" and
    "attr_X h2 self = Inr x" and "np_T h2 x = Inr (xt, h3)" and "attr_vis h3 self = Inr vd" and
    "meta_items h3 self = Inr kv" and
    "AnnData_call h3 xt (SrcRec smp) (SrcRec var) (Some vd) kv = Inr (p, h')"
proof -
  from assms obtain vt where vt: "attr_var h self = Inr vt"
    by (auto simp: AnnData_transpose_def split: sum.splits)
  from assms vt obtain smp h1 where sm: "copy_renamed h vt VAR_NAMES SMP_NAMES = Inr (smp, h1)"
    by (auto simp: AnnData_transpose_def split: sum.splits)
  from assms vt sm obtain st where st: "attr_smp h1 self = Inr st"
    by (auto simp: AnnData_transpose_def split: sum.splits)
  from assms vt sm st obtain var h2 where vm: "copy_renamed h1 st SMP_NAMES VAR_NAMES = Inr (var, h2)"
    by (auto simp: AnnData_transpose_def split: sum.splits)
  from assms vt sm st vm obtain x where x: "attr_X h2 self = Inr x"
    by (auto simp: AnnData_transpose_def split: sum.splits)
  from assms vt sm st vm x obtain xt h3 where xt: "np_T h2 x = Inr (xt, h3)"
    by (auto simp: AnnData_transpose_def split: sum.splits)
  from assms vt sm st vm x xt obtain vd where vd: "attr_vis h3 self = Inr vd"
    by (auto simp: AnnData_transpose_def split: sum.splits)
  from assms vt sm st vm x xt vd obtain kv where kv: "meta_items h3 self = Inr kv"
    by (auto simp: AnnData_transpose_def split: sum.splits)
  from assms vt sm st vm x xt vd kv
  have "AnnData_call h3 xt (SrcRec smp) (SrcRec var) (Some vd) kv = Inr (p, h')"
    by (auto simp: AnnData_transpose_def split: sum.splits)
  with vt sm st vm x xt vd kv show ?thesis by (rule that)
qed

lemma AnnData_transpose_shape:
  assumes "AnnData_transpose h self = Inr (p, h')"
  shows "shape_invariant h' p"
proof -
  from assms obtain vt smp h1 st var h2 x xt h3 vd kv where
    "attr_var h self = Inr vt" and "copy_renamed h vt VAR_NAMES SMP_NAMES = Inr (smp, h1)" and
    "attr_smp h1 self = Inr st" and "copy_renamed h1 st SMP_NAMES VAR_NAMES = Inr (var, h2)" and
    "attr_X h2 self = Inr x" and t: "np_T h2 x = Inr (xt, h3)" and "attr_vis h3 self = Inr vd" and
    "meta_items h3 self = Inr kv" and
    c: "AnnData_call h3 xt (SrcRec smp) (SrcRec var) (Some vd) kv = Inr (p, h')"
    by (rule AnnData_transpose_Inr)
  from np_T_frame[OF t, of "{}"] have "xt < next_addr h3" by simp
  with AnnData_call_Inr[OF c] show ?thesis by (rule AnnData_init_shape)
qed

lemma from_ddata_shape:
  assumes "from_ddata h (Some x) rn cn kw = Inr (p, h')" and "x < next_addr h"
  shows "shape_invariant h' p"
proof -
  from assms(1) obtain h2 sa va vis kw' where c: "AnnData_init h2 x sa va vis kw' = Inr (p, h')"
    and "next_addr h \<le> next_addr h2"
    by (auto simp: from_ddata_def rec_fromarrays_def alloc_def Let_def split: option.splits prod.splits)
  with assms(2) have "x < next_addr h2" by simp
  with c show ?thesis by (rule AnnData_init_shape)
qed

section \<open>Exact results of the table constructor\<close>

lemma field_index_Some: "field_index names k = Some i \<Longrightarrow> i < length names \<and> names ! i = k"
  by (induction names arbitrary: i) (auto split: if_splits)

lemma field_index_None: "(field_index names k = None) = (k \<notin> set names)"
  by (induction names) auto

lemma field_index_nth: "distinct names \<Longrightarrow> i < length names \<Longrightarrow> field_index names (names ! i) = Some i"
proof (induction names arbitrary: i)
  case Nil
  then show ?case by simp
next
  case (Cons n ns)
  then show ?case by (cases i) auto
qed

text \<open>Storing a table where a table was changes no lookup of another kind.\<close>

lemma store_tab_over_tab:
  assumes "get_tab h arr = Some T"
  shows "get_dtype (store h arr (OTab T')) = get_dtype h"
    and "get_ann (store h arr (OTab T')) = get_ann h"
    and "get_arr (store h arr (OTab T')) = get_arr h"
    and "get_dict (store h arr (OTab T')) = get_dict h"
    and "get_buf (store h arr (OTab T')) = get_buf h"
    and "get_tab (store h arr (OTab T')) = (get_tab h)(arr \<mapsto> T')"
  using assms
  by (auto simp: fun_eq_iff get_dtype_def get_ann_def get_arr_def get_dict_def get_buf_def get_tab_def objs_store
      dest: objs_Some_lt split: option.splits obj.splits)

lemma AnnData_len_store_tab:
  "get_tab h arr = Some T \<Longrightarrow> AnnData_len (store h arr (OTab T')) p = AnnData_len h p"
  unfolding AnnData_len_def store_tab_over_tab(2)[of h arr T T'] store_tab_over_tab(3)[of h arr T T']
  by (simp add: store_tab_over_tab)

lemma py_truth_store_tab:
  "get_tab h arr = Some T \<Longrightarrow> py_truth (store h arr (OTab T')) par = py_truth h par"
  by (cases par) (simp_all add: py_truth_def AnnData_len_store_tab)

lemma store_same: "objs h a = Some ob \<Longrightarrow> store h a ob = h"
  by (rule heap_eqI) (auto simp: objs_store)

lemma store_store: "store (store h a ob) a ob' = store h a ob'"
  by (rule heap_eqI) (auto simp: objs_store)

lemma ndarray_setitem_field_exact:
  assumes "get_tab h arr = Some T" "get_dtype h (t_dtype T) = Some names"
    "field_index names k = Some i" "i < length (t_cols T)" "length v = t_len T"
  shows "ndarray_setitem_field h arr k v = Inr ((), store h arr (OTab (T\<lparr>t_cols := (t_cols T)[i := v]\<rparr>)))"
  using assms by (simp add: ndarray_setitem_field_def)

lemma fill_fields_exact:
  assumes "get_tab h arr = Some T" "get_dtype h (t_dtype T) = Some names" "t_parent T = Some par"
    "py_truth h par = Inr b" "length (t_cols T) = length names"
    "\<forall>(k, v) \<in> set kvs. k \<in> set names \<and> length v = t_len T"
  shows "fill_fields h arr kvs = Inr ((), store h arr (OTab (T\<lparr>t_cols := assign_cols names (t_cols T) kvs\<rparr>)))"
  using assms
proof (induction kvs arbitrary: h T)
  case Nil
  then show ?case by (simp add: assign_cols_def store_same get_tab_def split: option.splits obj.splits)
next
  case (Cons kv kvs)
  obtain k v where kv: "kv = (k, v)" by (cases kv)
  from Cons.prems(6) kv have kin: "k \<in> set names" and lv: "length v = t_len T" by auto
  then obtain i where i: "field_index names k = Some i"
    using field_index_None[of names k] by (cases "field_index names k") auto
  from field_index_Some[OF i] Cons.prems(5) have il: "i < length (t_cols T)" by simp
  define T1 where "T1 = T\<lparr>t_cols := (t_cols T)[i := v]\<rparr>"
  define h1 where "h1 = store h arr (OTab T1)"
  have s1: "setitem_own_field h arr k v = Inr ((), h1)"
    using Cons.prems(1-4) ndarray_setitem_field_exact[OF Cons.prems(1,2) i il lv]
    by (simp add: setitem_own_field_def h1_def T1_def)
  have lt: "arr < next_addr h" using Cons.prems(1) by (rule get_lt)
  have g1: "get_tab h1 arr = Some T1" by (simp add: h1_def get_store_same lt)
  have d1: "get_dtype h1 (t_dtype T1) = Some names"
    using Cons.prems(2) by (simp add: h1_def T1_def store_tab_over_tab[OF Cons.prems(1)])
  have p1: "t_parent T1 = Some par" using Cons.prems(3) by (simp add: T1_def)
  have t1: "py_truth h1 par = Inr b"
    using Cons.prems(4) by (simp add: h1_def py_truth_store_tab[OF Cons.prems(1)])
  have l1: "length (t_cols T1) = length names" using Cons.prems(5) by (simp add: T1_def)
  have r1: "\<forall>(k, v) \<in> set kvs. k \<in> set names \<and> length v = t_len T1"
    using Cons.prems(6) by (auto simp: T1_def)
  from Cons.IH[OF g1 d1 p1 t1 l1 r1]
  have "fill_fields h1 arr kvs = Inr ((), store h1 arr (OTab (T1\<lparr>t_cols := assign_cols names (t_cols T1) kvs\<rparr>)))" .
  then show ?case using s1 kv i
    by (simp add: h1_def store_store T1_def assign_cols_def)
qed

lemma assign_cols_take:
  assumes "distinct names" "length cols = length names" "length init = length names" "k \<le> length names"
  shows "assign_cols names init (zip (take k names) (take k cols)) = take k cols @ drop k init"
  using assms(4)
proof (induction k)
  case 0
  then show ?case by (simp add: assign_cols_def)
next
  case (Suc k)
  then have k: "k < length names" by simp
  have z: "zip (take (Suc k) names) (take (Suc k) cols) = zip (take k names) (take k cols) @ [(names ! k, cols ! k)]"
    using k assms(2) by (simp add: take_Suc_conv_app_nth)
  have "assign_cols names init (zip (take (Suc k) names) (take (Suc k) cols))
        = (take k cols @ drop k init)[k := cols ! k]"
    using Suc.IH k by (simp add: z assign_cols_def field_index_nth[OF assms(1) k])
  also have "\<dots> = take k cols @ (drop k init)[0 := cols ! k]"
    using k assms(2) by (simp add: list_update_append)
  also have "drop k init = init ! k # drop (Suc k) init"
    using k assms(3) by (simp add: Cons_nth_drop_Suc)
  also have "take k cols @ (init ! k # drop (Suc k) init)[0 := cols ! k] = take (Suc k) cols @ drop (Suc k) init"
    using k assms(2) by (simp add: take_Suc_conv_app_nth)
  finally show ?case .
qed

lemma assign_cols_all:
  assumes "distinct names" "length cols = length names" "length init = length names"
  shows "assign_cols names init (zip names cols) = cols"
  using assign_cols_take[OF assms, of "length names"] assms by simp

lemma get_push:
  "get_arr (push h ob) a = (if a = next_addr h then (case ob of OArr x \<Rightarrow> Some x | _ \<Rightarrow> None) else get_arr h a)"
  "get_buf (push h ob) a = (if a = next_addr h then (case ob of OBuf x \<Rightarrow> Some x | _ \<Rightarrow> None) else get_buf h a)"
  "get_dtype (push h ob) a = (if a = next_addr h then (case ob of ODtype x \<Rightarrow> Some x | _ \<Rightarrow> None) else get_dtype h a)"
  "get_tab (push h ob) a = (if a = next_addr h then (case ob of OTab x \<Rightarrow> Some x | _ \<Rightarrow> None) else get_tab h a)"
  "get_dict (push h ob) a = (if a = next_addr h then (case ob of ODict x \<Rightarrow> Some x | _ \<Rightarrow> None) else get_dict h a)"
  "get_ann (push h ob) a = (if a = next_addr h then (case ob of OAnn x \<Rightarrow> Some x | _ \<Rightarrow> None) else get_ann h a)"
  by (simp_all add: get_arr_def get_buf_def get_dtype_def get_tab_def get_dict_def get_ann_def)

lemma get_set_ann:
  "get_arr (set_ann h p f) = get_arr h"
  "get_buf (set_ann h p f) = get_buf h"
  "get_dtype (set_ann h p f) = get_dtype h"
  "get_tab (set_ann h p f) = get_tab h"
  "get_dict (set_ann h p f) = get_dict h"
  "get_ann (set_ann h p f) q = (if q = p then map_option f (get_ann h p) else get_ann h q)"
  by (auto simp: fun_eq_iff set_ann_def get_arr_def get_buf_def get_dtype_def get_tab_def get_dict_def
        get_ann_def objs_store dest: objs_Some_lt split: option.splits obj.splits)

lemma class_of_push: "a < next_addr h \<Longrightarrow> class_of (push h ob) a = class_of h a"
  by (simp add: class_of_def)

lemma class_of_arr: "get_arr h x = Some xa \<Longrightarrow> class_of h x = a_cls xa"
  by (auto simp: class_of_def get_arr_def split: option.splits obj.splits)

lemma store_push_last: "store (push h ob) (next_addr h) ob' = push h ob'"
  by (rule heap_eqI) (auto simp: objs_store)

lemma get_push_Some:
  "get_arr h a = Some xa \<Longrightarrow> get_arr (push h ob) a = Some xa"
  "get_buf h a = Some b \<Longrightarrow> get_buf (push h ob) a = Some b"
  "get_dtype h a = Some ns \<Longrightarrow> get_dtype (push h ob) a = Some ns"
  "get_tab h a = Some t \<Longrightarrow> get_tab (push h ob) a = Some t"
  "get_dict h a = Some d \<Longrightarrow> get_dict (push h ob) a = Some d"
  "get_ann h a = Some an \<Longrightarrow> get_ann (push h ob) a = Some an"
  using get_lt[of h a] by (simp_all add: get_push)

lemma AnnData_len_Inr:
  "(AnnData_len h p = Inr n) =
     (\<exists>a x xa rest. get_ann h p = Some a \<and> ad_X a = Some x \<and> get_arr h x = Some xa \<and> a_shape xa = n # rest)"
  by (simp add: AnnData_len_def split: option.split list.split)

lemma AnnData_len_push: "AnnData_len h p = Inr n \<Longrightarrow> AnnData_len (push h ob) p = Inr n"
  unfolding AnnData_len_Inr by (blast intro: get_push_Some)

lemma py_truth_push: "py_truth h par = Inr b \<Longrightarrow> py_truth (push h ob) par = Inr b"
proof (cases par)
  case None
  then show "py_truth h par = Inr b \<Longrightarrow> ?thesis" by (simp add: py_truth_def)
next
  case (Some p)
  assume "py_truth h par = Inr b"
  with Some obtain n where n: "AnnData_len h p = Inr n" and b: "b = (n \<noteq> 0)"
    by (auto simp: py_truth_def split: sum.splits)
  from AnnData_len_push[OF n] b Some show ?thesis by (simp add: py_truth_def)
qed

lemma BoundRecArr_new_rec:
  assumes r: "get_tab h r = Some R" and d: "get_dtype h (t_dtype R) = Some names"
    and ne: "t_cols R \<noteq> []" and len: "length (t_cols R) = length names" and dist: "distinct names"
    and rows: "list_all (\<lambda>c. length c = t_len R) (t_cols R)"
    and pt: "py_truth h par = Inr b"
  shows "BoundRecArr_new h (SrcRec r) n nc par =
           Inr (Suc (next_addr h),
                push (push h (ODtype names))
                  (OTab \<lparr>t_dtype = next_addr h, t_cols = t_cols R, t_len = t_len R,
                         t_parent = Some par, t_name_col = Some nc\<rparr>))"
proof -
  from ne obtain c0 cs where cols: "t_cols R = c0 # cs" by (cases "t_cols R") auto
  with rows have l0: "length c0 = t_len R" by simp
  define T0 where "T0 = \<lparr>t_dtype = next_addr h, t_cols = map (\<lambda>x. replicate (length c0) Unset) names,
     t_len = length c0, t_parent = Some par, t_name_col = Some nc\<rparr>"
  define H where "H = push (push h (ODtype names)) (OTab T0)"
  have sc: "source_cols h (SrcRec r) n nc = Inr (names, t_cols R)"
    using r d by (simp add: source_cols_def)
  have g: "get_tab H (Suc (next_addr h)) = Some T0" by (simp add: H_def get_push)
  have gd: "get_dtype H (t_dtype T0) = Some names" by (simp add: H_def T0_def get_push)
  have pt': "py_truth H par = Inr b" using pt by (simp add: H_def py_truth_push)
  have kv: "\<forall>(k, v) \<in> set (zip names (t_cols R)). k \<in> set names \<and> length v = t_len T0"
    using rows l0 by (auto simp: T0_def list_all_iff dest: set_zip_leftD set_zip_rightD)
  have "fill_fields H (Suc (next_addr h)) (zip names (t_cols R)) =
          Inr ((), store H (Suc (next_addr h)) (OTab (T0\<lparr>t_cols := assign_cols names (t_cols T0) (zip names (t_cols R))\<rparr>)))"
    by (rule fill_fields_exact[OF g gd _ pt' _ kv]) (simp_all add: T0_def)
  moreover have "assign_cols names (t_cols T0) (zip names (t_cols R)) = t_cols R"
    by (rule assign_cols_all[OF dist len]) (simp add: T0_def)
  moreover have "store H (Suc (next_addr h)) (OTab (T0\<lparr>t_cols := t_cols R\<rparr>)) =
      push (push h (ODtype names)) (OTab (T0\<lparr>t_cols := t_cols R\<rparr>))"
    using store_push_last[of "push h (ODtype names)"] by (simp add: H_def)
  ultimately have "fill_fields H (Suc (next_addr h)) (zip names (t_cols R)) =
      Inr ((), push (push h (ODtype names)) (OTab (T0\<lparr>t_cols := t_cols R\<rparr>)))" by simp
  then show ?thesis
    using sc cols l0
    by (simp add: BoundRecArr_new_def alloc_def Let_def H_def T0_def)
qed

section \<open>Summary of a successful construction\<close>

lemma ndarray_setitem_field_table_is:
  assumes "ndarray_setitem_field h arr k v = Inr (u, h')" and "table_is h arr d par nc"
  shows "table_is h' arr d par nc"
proof -
  from assms(2) obtain t where t: "get_tab h arr = Some t" "t_dtype t = d" "t_parent t = Some par"
    "t_name_col t = Some nc" "list_all (\<lambda>c. length c = t_len t) (t_cols t)"
    by (auto simp: table_is_def)
  have lt: "arr < next_addr h" using t(1) by (rule get_lt)
  from assms(1) t(1) obtain i c where h': "h' = store h arr (OTab (t\<lparr>t_cols := (t_cols t)[i := c]\<rparr>))"
    and c: "length c = t_len t"
    by (auto simp: ndarray_setitem_field_def split: option.splits if_splits)
  have "list_all (\<lambda>c. length c = t_len t) ((t_cols t)[i := c])"
    using t(5) c by (auto simp: list_all_iff dest!: set_update_subset_insert[THEN subsetD])
  then show ?thesis using t lt by (simp add: table_is_def h' get_store_same)
qed

lemma fill_fields_table_is:
  "fill_fields h arr kvs = Inr (u, h') \<Longrightarrow> table_is h arr d par nc \<Longrightarrow> table_is h' arr d par nc"
proof (induction kvs arbitrary: h)
  case Nil
  then show ?case by simp
next
  case (Cons kv kvs)
  obtain k v where kv: "kv = (k, v)" by (cases kv)
  from Cons.prems kv obtain h1 where
    s1: "setitem_own_field h arr k v = Inr ((), h1)" and s2: "fill_fields h1 arr kvs = Inr (u, h')"
    by (auto split: sum.splits)
  from s1 have "ndarray_setitem_field h arr k v = Inr ((), h1)"
    by (auto simp: setitem_own_field_def split: option.splits sum.splits)
  from ndarray_setitem_field_table_is[OF this Cons.prems(2)] Cons.IH[OF s2] show ?case by simp
qed

lemma BoundRecArr_new_table_is:
  assumes "BoundRecArr_new h src n nc par = Inr (arr, h')"
  shows "table_is h' arr (next_addr h) par nc \<and> (\<exists>names. get_dtype h' (next_addr h) = Some names)"
proof -
  from assms obtain names cols c0 cs u where
    sc: "source_cols h src n nc = Inr (names, cols)" and cols: "cols = c0 # cs" and
    ff: "fill_fields (fresh_table h names (length c0) par nc) (Suc (next_addr h)) (zip names cols) = Inr (u, h')"
    and arr: "arr = Suc (next_addr h)"
    by (rule BoundRecArr_new_Inr)
  have "table_is (fresh_table h names (length c0) par nc) (Suc (next_addr h)) (next_addr h) par nc"
    by (simp add: table_is_def fresh_table_def alloc_def get_push list_all_iff)
  from fill_fields_table_is[OF ff this] have 1: "table_is h' arr (next_addr h) par nc" using arr by simp
  have "get_dtype (fresh_table h names (length c0) par nc) (next_addr h) = Some names"
    by (simp add: fresh_table_def alloc_def get_push)
  moreover from fill_fields_frame[OF ff] have "frame (fresh_table h names (length c0) par nc) h' {Suc (next_addr h)}"
    by simp
  then have "objs h' (next_addr h) = objs (fresh_table h names (length c0) par nc) (next_addr h)"
    by (rule frame_objs) (simp_all add: fresh_table_def alloc_def)
  ultimately have "get_dtype h' (next_addr h) = Some names" by (simp add: get_dtype_def)
  with 1 show ?thesis by blast
qed

lemma init_storage_arr:
  assumes "init_storage h self x = Inr (rc, h')"
  shows "\<exists>xa. get_arr h x = Some xa"
  using assms
  by (auto simp: init_storage_def Let_def get_set_ann split: option.splits)

lemma get_dtype_frame: "frame h h' M \<Longrightarrow> p < next_addr h \<Longrightarrow> p \<notin> M \<Longrightarrow> get_dtype h' p = get_dtype h p"
  by (simp add: get_dtype_def frame_def)

lemma get_dict_frame: "frame h h' M \<Longrightarrow> p < next_addr h \<Longrightarrow> p \<notin> M \<Longrightarrow> get_dict h' p = get_dict h p"
  by (simp add: get_dict_def frame_def)

lemma get_buf_frame: "frame h h' M \<Longrightarrow> p < next_addr h \<Longrightarrow> p \<notin> M \<Longrightarrow> get_buf h' p = get_buf h p"
  by (simp add: get_buf_def frame_def)

lemma table_is_frame: "frame h h' M \<Longrightarrow> p < next_addr h \<Longrightarrow> p \<notin> M \<Longrightarrow> table_is h' p d par nc = table_is h p d par nc"
  by (simp add: table_is_def get_tab_frame)

lemma table_is_set_ann: "table_is (set_ann h p f) q d par nc = table_is h q d par nc"
  by (simp add: table_is_def get_set_ann)

lemma init_tables_table_is:
  assumes it: "init_tables h self x sa va r c = Inr (u, h')"
    and a: "get_ann h' self = Some a'"
  shows "\<exists>s v. ad_smp a' = Some s \<and> ad_var a' = Some v
         \<and> table_is h' s (next_addr h) (Some self) SMP_NAMES
         \<and> table_is h' v (Suc (Suc (next_addr h))) (Some self) VAR_NAMES
         \<and> s = Suc (next_addr h) \<and> v = Suc (Suc (Suc (next_addr h)))
         \<and> next_addr h' = Suc (Suc (Suc (Suc (next_addr h))))
         \<and> get_dtype h' (next_addr h) \<noteq> None \<and> get_dtype h' (Suc (Suc (next_addr h))) \<noteq> None"
proof -
  from it obtain s h1 where n1: "BoundRecArr_new h sa r SMP_NAMES (Some self) = Inr (s, h1)"
    by (auto simp: init_tables_def split: sum.splits)
  define h2 where "h2 = set_ann h1 self (\<lambda>a. a\<lparr>ad_smp := Some s\<rparr>)"
  from it n1 obtain v h3 where n2: "BoundRecArr_new h2 va c VAR_NAMES (Some self) = Inr (v, h3)"
    by (auto simp: init_tables_def h2_def Let_def split: sum.splits)
  define h4 where "h4 = set_ann h3 self (\<lambda>a. a\<lparr>ad_var := Some v\<rparr>)"
  from it n1 n2 have cd: "check_dimensions h4 x s v = Inr (u, h')"
    by (auto simp: init_tables_def h2_def h4_def Let_def split: sum.splits)
  from check_dimensions_Inr[OF cd] have h': "h' = h4" by simp
  from BoundRecArr_new_frame[OF n1, of "{}"] have s: "s = Suc (next_addr h)"
    and nx1: "next_addr h1 = Suc (Suc (next_addr h))" by auto
  have nx2: "next_addr h2 = next_addr h1" by (simp add: h2_def next_set_ann)
  from BoundRecArr_new_frame[OF n2, of "{}"] have f23: "frame h2 h3 {}" and v: "v = Suc (next_addr h2)"
    and nx3: "next_addr h3 = Suc (Suc (next_addr h2))" by auto
  from BoundRecArr_new_table_is[OF n1] obtain ns1 where t1: "table_is h1 s (next_addr h) (Some self) SMP_NAMES"
    and d1: "get_dtype h1 (next_addr h) = Some ns1" by blast
  from BoundRecArr_new_table_is[OF n2] obtain ns2 where t2: "table_is h3 v (next_addr h2) (Some self) VAR_NAMES"
    and d2: "get_dtype h3 (next_addr h2) = Some ns2" by blast
  have t1': "table_is h4 s (next_addr h) (Some self) SMP_NAMES"
    using t1 table_is_frame[OF f23, of s] s nx1 nx2 by (simp add: h4_def h2_def table_is_set_ann)
  have "get_dtype h3 (next_addr h) = get_dtype h2 (next_addr h)"
    by (rule get_dtype_frame[OF f23]) (simp_all add: nx1 nx2)
  then have d1': "get_dtype h4 (next_addr h) = Some ns1"
    using d1 by (simp add: h4_def h2_def get_set_ann)
  have t2': "table_is h4 v (next_addr h2) (Some self) VAR_NAMES"
    using t2 by (simp add: h4_def table_is_set_ann)
  have d2': "get_dtype h4 (next_addr h2) = Some ns2" using d2 by (simp add: h4_def get_set_ann)
  have asmp: "ad_smp a' = Some s \<and> ad_var a' = Some v"
  proof -
    from a h' have a4: "get_ann h4 self = Some a'" by simp
    then obtain a3 where a3: "get_ann h3 self = Some a3" and a': "a' = a3\<lparr>ad_var := Some v\<rparr>"
      by (auto simp: h4_def get_set_ann)
    from a3 have lt3: "self < next_addr h3" by (rule get_lt)
    have "self \<noteq> next_addr h2 \<and> self \<noteq> Suc (next_addr h2)"
      using a3 t2 d2 v by (auto simp: table_is_def get_ann_def get_tab_def get_dtype_def split: option.splits obj.splits)
    with lt3 nx3 have lt2: "self < next_addr h2" by simp
    from get_ann_frame[OF f23 lt2] a3 have "get_ann h2 self = Some a3" by simp
    then have "ad_smp a3 = Some s" by (auto simp: h2_def get_set_ann)
    with a' show ?thesis by simp
  qed
  show ?thesis
    using asmp t1' t2' d1' d2' s v nx1 nx2 nx3 h' by (simp add: h4_def next_set_ann)
qed

lemma get_dict_not_val: "get_dict h d = Some kv \<Longrightarrow> get_val h d = None"
  by (auto simp: get_dict_def get_val_def split: option.splits obj.splits)

lemma vis_or_empty_cases:
  assumes "vis_or_empty h vis = Inr (vd, h1)"
  shows "(vis_fresh h vis \<and> vd = next_addr h \<and> h1 = push h (ODict []))
       \<or> (\<not> vis_fresh h vis \<and> vis = Some vd \<and> h1 = h
            \<and> ((\<exists>kvs. get_dict h vd = Some kvs \<and> kvs \<noteq> []) \<or> (\<exists>v. get_val h vd = Some v)))"
  using assms
  by (auto simp: vis_or_empty_def vis_fresh_def alloc_def get_dict_not_val split: option.splits if_splits)

lemma init_meta_vis:
  assumes im: "init_meta h self vis kw = Inr (u, h')" and a: "get_ann h self = Some a"
  shows "\<exists>vd m. get_ann h' self = Some (a\<lparr>ad_vis := Some vd, ad_meta := Some m\<rparr>)
           \<and> get_dict h' m = Some kw \<and> next_addr h \<le> m \<and> next_addr h' = Suc m
           \<and> (if vis_fresh h vis then vd = next_addr h \<and> get_dict h' vd = Some [] \<and> m = Suc (next_addr h)
               else vis = Some vd \<and> m = next_addr h \<and> get_dict h' vd = get_dict h vd \<and> get_dict h vd \<noteq> Some []
                    \<and> vd < next_addr h)"
proof -
  from im obtain vd h1 where v: "vis_or_empty h vis = Inr (vd, h1)"
    by (auto simp: init_meta_def split: sum.splits)
  define h2 where "h2 = set_ann h1 self (\<lambda>a. a\<lparr>ad_vis := Some vd\<rparr>)"
  define m where "m = next_addr h2"
  from im v have h': "h' = set_ann (push h2 (ODict kw)) self (\<lambda>a. a\<lparr>ad_meta := Some m\<rparr>)"
    by (auto simp: init_meta_def h2_def m_def Let_def alloc_def split: sum.splits prod.splits)
  have lt: "self < next_addr h" using a by (rule get_lt)
  from vis_or_empty_cases[OF v] show ?thesis
  proof
    assume c: "vis_fresh h vis \<and> vd = next_addr h \<and> h1 = push h (ODict [])"
    then have "get_ann h' self = Some (a\<lparr>ad_vis := Some vd, ad_meta := Some m\<rparr>)"
      and "get_dict h' m = Some kw" and "m = Suc (next_addr h)" and "get_dict h' vd = Some []"
      and "next_addr h' = Suc m"
      using a lt by (simp_all add: h' h2_def m_def get_set_ann get_push next_set_ann)
    with c show ?thesis by auto
  next
    assume c: "\<not> vis_fresh h vis \<and> vis = Some vd \<and> h1 = h
            \<and> ((\<exists>kvs. get_dict h vd = Some kvs \<and> kvs \<noteq> []) \<or> (\<exists>v. get_val h vd = Some v))"
    then have ltv: "vd < next_addr h" by (auto dest: get_lt)
    from c have k: "get_dict h vd \<noteq> Some []" by (auto simp: get_dict_def get_val_def split: option.splits obj.splits)
    from c have "get_ann h' self = Some (a\<lparr>ad_vis := Some vd, ad_meta := Some m\<rparr>)"
      and "get_dict h' m = Some kw" and "m = next_addr h" and "get_dict h' vd = get_dict h vd"
      and "next_addr h' = Suc m"
      using a lt ltv by (simp_all add: h' h2_def m_def get_set_ann get_push next_set_ann)
    with c k ltv show ?thesis by auto
  qed
qed

lemma AnnData_init_Inr:
  assumes "AnnData_init h x sa va vis kw = Inr (p, h')"
  shows "p = next_addr h"
    and "\<exists>xa0 st vd m. get_arr h x = Some xa0 \<and> find_storage_type (a_cls xa0) = Some st
          \<and> get_arr h' x = Some (if length (a_shape xa0) = 1 then xa0\<lparr>a_shape := [a_shape xa0 ! 0, 1]\<rparr> else xa0)
          \<and> get_ann h' p = Some \<lparr>ad_storage_type = Some st, ad_X = Some x, ad_smp = Some (p + 2),
                 ad_var = Some (p + 4), ad_vis = Some vd, ad_meta = Some m\<rparr>
          \<and> get_dict h' m = Some kw \<and> p + 5 \<le> m \<and> next_addr h' = Suc m
          \<and> (case vis of None \<Rightarrow> vd = p + 5 \<and> get_dict h' vd = Some []
              | Some d \<Rightarrow> (\<forall>kvs. get_dict h d = Some kvs \<longrightarrow>
                     (if kvs = [] then vd = p + 5 \<and> get_dict h' vd = Some []
                      else vd = d \<and> get_dict h' d = Some kvs)))"
    and "table_is h' (p + 2) (p + 1) (Some p) SMP_NAMES"
    and "table_is h' (p + 4) (p + 3) (Some p) VAR_NAMES"
    and "get_dtype h' (p + 1) \<noteq> None" and "get_dtype h' (p + 3) \<noteq> None"
    and "frame h h' {x}"
    and "shape_invariant h' p"
proof -
  define h1 where "h1 = push h (OAnn new_anndata)"
  have p0: "get_ann h1 (next_addr h) = Some new_anndata" "next_addr h1 = Suc (next_addr h)"
    by (simp_all add: h1_def get_push)
  from assms obtain r c h2 u h3 u' where p: "p = next_addr h" and
    st: "init_storage h1 p x = Inr ((r, c), h2)" and
    it: "init_tables h2 p x sa va r c = Inr (u, h3)" and
    im: "init_meta h3 p vis kw = Inr (u', h')"
    by (auto simp: AnnData_init_def h1_def alloc_def Let_def split: sum.splits prod.splits)
  show "p = next_addr h" by (rule p)
  from init_storage_arr[OF st] obtain xa1 where "get_arr h1 x = Some xa1" by blast
  then have xh: "get_arr h x = Some xa1" and ne: "x \<noteq> p"
    by (auto simp: h1_def get_push p split: if_splits)
  then have xlt: "x < next_addr h" by (auto dest: get_lt)
  have cls: "class_of h1 x = a_cls xa1" using xh xlt by (simp add: h1_def class_of_push class_of_arr)
  from init_storage_Inr[OF st _ ne] p0 p obtain st' xa0 xa where
    s1: "find_storage_type (class_of h1 x) = Some st'" "get_arr h1 x = Some xa0"
    "xa = (if length (a_shape xa0) = 1 then xa0\<lparr>a_shape := [a_shape xa0 ! 0, 1]\<rparr> else xa0)"
    "get_arr h2 x = Some xa" "a_shape xa = [r, c]"
    "get_ann h2 p = Some (new_anndata\<lparr>ad_storage_type := Some st', ad_X := Some x\<rparr>)"
    "next_addr h2 = next_addr h1" "\<forall>q. q \<noteq> p \<and> q \<noteq> x \<longrightarrow> objs h2 q = objs h1 q"
    by blast
  have xa0: "xa0 = xa1" using s1(2) \<open>get_arr h1 x = Some xa1\<close> by simp
  have f12: "frame h h2 {x}"
    using s1(7,8) p0(2) p by (auto simp: frame_def h1_def)
  have lt2: "p < next_addr h2" "x < next_addr h2" using s1(7) p0 p xlt by simp_all
  from init_tables_Inr[OF it s1(6) lt2 ne] obtain s v xa' where
    a3: "get_ann h3 p = Some (new_anndata\<lparr>ad_storage_type := Some st', ad_X := Some x, ad_smp := Some s, ad_var := Some v\<rparr>)" and
    xa': "get_arr h3 x = Some xa'" "get_arr h2 x = Some xa'" and
    rows: "table_rows h3 s (a_shape xa' ! 0)" "table_rows h3 v (a_shape xa' ! 1)"
    and len: "length (a_shape xa') = 2" and f23: "frame h2 h3 {p}" by blast
  from init_tables_table_is[OF it a3] have
    sv: "s = Suc (next_addr h2)" "v = Suc (Suc (Suc (next_addr h2)))" and
    ti: "table_is h3 s (next_addr h2) (Some p) SMP_NAMES" "table_is h3 v (Suc (Suc (next_addr h2))) (Some p) VAR_NAMES"
    and nx3: "next_addr h3 = Suc (Suc (Suc (Suc (next_addr h2))))"
    and dt: "get_dtype h3 (next_addr h2) \<noteq> None" "get_dtype h3 (Suc (Suc (next_addr h2))) \<noteq> None"
    by auto
  have n2: "next_addr h2 = Suc p" using s1(7) p0(2) p by simp
  from init_meta_Inr[OF im a3] nx3 n2 have f34: "frame h3 h' {p}" by auto
  from init_meta_vis[OF im a3] obtain vd m where
    a4: "get_ann h' p = Some (new_anndata\<lparr>ad_storage_type := Some st', ad_X := Some x, ad_smp := Some s,
            ad_var := Some v, ad_vis := Some vd, ad_meta := Some m\<rparr>)"
    and md: "get_dict h' m = Some kw" "next_addr h3 \<le> m" "next_addr h' = Suc m"
    and vf: "if vis_fresh h3 vis then vd = next_addr h3 \<and> get_dict h' vd = Some [] \<and> m = Suc (next_addr h3)
               else vis = Some vd \<and> m = next_addr h3 \<and> get_dict h' vd = get_dict h3 vd \<and> get_dict h3 vd \<noteq> Some []
                    \<and> vd < next_addr h3"
    by blast
  have fr3: "frame h h3 {x}"
  proof -
    have "frame h2 h3 {x, p}" using f23 by (rule frame_mono) simp
    then show ?thesis using f12 p s1(7) p0(2)
      by (auto simp: frame_def)
  qed
  show fr: "frame h h' {x}"
    using fr3 f34 p by (auto simp: frame_def)
  have dict3: "\<And>d kvs. get_dict h3 d = Some kvs \<Longrightarrow> get_dict h d = Some kvs"
  proof -
    fix d kvs assume g: "get_dict h3 d = Some kvs"
    then have "d < next_addr h3" by (rule get_lt)
    moreover have "d \<noteq> p" using g a3 by (auto simp: get_dict_def get_ann_def split: option.splits obj.splits)
    moreover have "d \<noteq> Suc p \<and> d \<noteq> Suc (Suc (Suc p))"
      using g dt n2 by (auto simp: get_dict_def get_dtype_def split: option.splits obj.splits)
    moreover have "d \<noteq> Suc (Suc p) \<and> d \<noteq> Suc (Suc (Suc (Suc p)))"
      using g ti sv n2 by (auto simp: get_dict_def get_tab_def table_is_def split: option.splits obj.splits)
    moreover have "d \<noteq> x" using g xa'(1) by (auto simp: get_dict_def get_arr_def split: option.splits obj.splits)
    ultimately have "d < next_addr h" "d \<notin> {x}" using nx3 n2 p by auto
    from get_dict_frame[OF fr3 this] g show "get_dict h d = Some kvs" by simp
  qed
  have visc: "(case vis of None \<Rightarrow> vd = p + 5 \<and> get_dict h' vd = Some []
              | Some d \<Rightarrow> (\<forall>kvs. get_dict h d = Some kvs \<longrightarrow>
                     (if kvs = [] then vd = p + 5 \<and> get_dict h' vd = Some []
                      else vd = d \<and> get_dict h' d = Some kvs)))"
  proof (cases vis)
    case None
    then show ?thesis using vf nx3 n2 by (auto simp: vis_fresh_def)
  next
    case (Some d)
    have "\<forall>kvs. get_dict h d = Some kvs \<longrightarrow>
            (if kvs = [] then vd = p + 5 \<and> get_dict h' vd = Some []
             else vd = d \<and> get_dict h' d = Some kvs)"
    proof (intro allI impI)
      fix kvs assume g: "get_dict h d = Some kvs"
      from g have "d < next_addr h" by (rule get_lt)
      moreover have "d \<noteq> x" using g xh by (auto simp: get_dict_def get_arr_def split: option.splits obj.splits)
      ultimately have g3: "get_dict h3 d = Some kvs" using get_dict_frame[OF fr3, of d] g by simp
      then have nv: "get_val h3 d = None"
        by (auto simp: get_dict_def get_val_def split: option.splits obj.splits)
      from g3 nv Some have "vis_fresh h3 vis = (kvs = [])" by (simp add: vis_fresh_def)
      with vf g3 Some nx3 n2 show "if kvs = [] then vd = p + 5 \<and> get_dict h' vd = Some []
             else vd = d \<and> get_dict h' d = Some kvs" by auto
    qed
    with Some show ?thesis by simp
  qed
  have xa_eq: "xa' = xa" using xa'(2) s1(4) by simp
  have "get_arr h' x = Some xa" using get_arr_frame[OF f34 lt2(2)[THEN less_le_trans, OF frame_next[OF f23]]] ne xa'(1) xa_eq by simp
  moreover have "find_storage_type (a_cls xa0) = Some st'" using s1(1) cls xa0 by simp
  moreover have "p + 5 \<le> m" using md(2) nx3 n2 by simp
  ultimately show "\<exists>xa0 st vd m. get_arr h x = Some xa0 \<and> find_storage_type (a_cls xa0) = Some st
          \<and> get_arr h' x = Some (if length (a_shape xa0) = 1 then xa0\<lparr>a_shape := [a_shape xa0 ! 0, 1]\<rparr> else xa0)
          \<and> get_ann h' p = Some \<lparr>ad_storage_type = Some st, ad_X = Some x, ad_smp = Some (p + 2),
                 ad_var = Some (p + 4), ad_vis = Some vd, ad_meta = Some m\<rparr>
          \<and> get_dict h' m = Some kw \<and> p + 5 \<le> m \<and> next_addr h' = Suc m
          \<and> (case vis of None \<Rightarrow> vd = p + 5 \<and> get_dict h' vd = Some []
              | Some d \<Rightarrow> (\<forall>kvs. get_dict h d = Some kvs \<longrightarrow>
                     (if kvs = [] then vd = p + 5 \<and> get_dict h' vd = Some []
                      else vd = d \<and> get_dict h' d = Some kvs)))"
    using xh xa0 s1(3) a4 md(1,3) visc sv n2
    by (intro exI[of _ xa0] exI[of _ st'] exI[of _ vd] exI[of _ m]) (simp add: new_anndata_def)
  have slt: "p + 2 < next_addr h3" "p + 4 < next_addr h3" "p + 1 < next_addr h3" "p + 3 < next_addr h3"
    using nx3 n2 by simp_all
  show "table_is h' (p + 2) (p + 1) (Some p) SMP_NAMES"
    using ti(1) sv n2 table_is_frame[OF f34 slt(1)] by (simp add: eval_nat_numeral)
  show "table_is h' (p + 4) (p + 3) (Some p) VAR_NAMES"
    using ti(2) sv n2 table_is_frame[OF f34 slt(2)] by (simp add: eval_nat_numeral)
  show "get_dtype h' (p + 1) \<noteq> None"
    using dt(1) n2 get_dtype_frame[OF f34 slt(3)] by (simp add: eval_nat_numeral)
  show "get_dtype h' (p + 3) \<noteq> None"
    using dt(2) n2 get_dtype_frame[OF f34 slt(4)] by (simp add: eval_nat_numeral)
  show "shape_invariant h' p"
    using assms xlt by (rule AnnData_init_shape)
qed

section \<open>Slicing and writing\<close>


lemma frame_empty_trans:
  "frame h h1 {} \<Longrightarrow> frame h1 h2 {x} \<Longrightarrow> next_addr h \<le> x \<Longrightarrow> frame h h2 {}"
  by (auto simp: frame_def)

lemma np_setitem2_one_buffer:
  assumes "np_setitem2 h x smp var v = Inr (u, h')" and "get_arr h x = Some xa"
  shows "next_addr h' = next_addr h \<and> (\<forall>a. a \<noteq> a_buf xa \<longrightarrow> objs h' a = objs h a)
         \<and> get_buf h' (a_buf xa) \<noteq> None"
  using assms
  by (auto simp: np_setitem2_def objs_store get_buf_def dest: objs_Some_lt
       split: option.splits list.splits if_splits sum.splits obj.splits)

text \<open>An assignment to a table changes the table and the slots of its owner, an
  assignment to a key of the metadata changes that dict; neither reaches another
  object.\<close>

lemma append_fields_frame:
  assumes "append_fields h t key value = Inr (r, h1)"
  shows "frame h h1 M"
  using assms
  by (auto simp: append_fields_def alloc_def frame_def Let_def
       split: option.splits if_splits prod.splits)

lemma setattr_table_frame:
  assumes "setattr_table h p attr new = Inr (u, h1)"
  shows "frame h h1 {p}"
  using assms
  by (auto simp: setattr_table_def intro: frame_store split: option.splits)

lemma BoundRecArr_setitem_frame:
  assumes s: "BoundRecArr_setitem h t key value = Inr (u, h')"
    and t: "get_tab h t = Some T" and p: "t_parent T = Some (Some p)"
  shows "frame h h' {t, p}"
proof -
  from s t p obtain names b where d: "get_dtype h (t_dtype T) = Some names"
    and b: "py_truth h (Some p) = Inr b"
    by (auto simp: BoundRecArr_setitem_def split: option.splits sum.splits)
  show ?thesis
  proof (cases "b \<and> key \<notin> set names")
    case False
    with s t p d b have "ndarray_setitem_field h t key value = Inr (u, h')"
      by (auto simp: BoundRecArr_setitem_def)
    then have "frame h h' {t}" by (simp add: ndarray_setitem_field_frame)
    then show ?thesis by (rule frame_mono) simp
  next
    case True
    with s t p d b obtain nc src h1 new h2 where
      a: "append_fields h t key value = Inr (src, h1)" and
      n: "BoundRecArr_new h1 (SrcRec src) (t_len T) nc (Some p) = Inr (new, h2)" and
      w: "setattr_table h2 p (if nc = SMP_NAMES then ''smp'' else ''var'') new = Inr (u, h')"
      by (auto simp: BoundRecArr_setitem_def Let_def split: option.splits sum.splits if_splits)
    have 1: "frame h h1 {t, p}" using a by (rule append_fields_frame)
    have 2: "frame h1 h2 {t, p}" using BoundRecArr_new_frame[OF n] by simp
    have 3: "frame h2 h' {t, p}" using setattr_table_frame[OF w] by (rule frame_mono) simp
    from 1 2 3 show ?thesis by (blast intro: frame_trans)
  qed
qed

lemma AnnData_setitem_name_frame:
  assumes "AnnData_setitem h m (ISingle (KName k)) v = Inr (u, h')" and "attr_meta h m = Inr md"
  shows "frame h h' {md}"
  using assms
  by (auto simp: AnnData_setitem_def intro: frame_store split: option.splits sum.splits)

section \<open>Exact result of the constructor on two record arrays\<close>

lemma init_storage_rank2:
  assumes "get_arr h x = Some xa" and "a_shape xa = [R, C]" and "find_storage_type (a_cls xa) = Some sty"
  shows "init_storage h self x =
           Inr ((R, C), set_ann (set_ann h self (\<lambda>a. a\<lparr>ad_storage_type := Some sty\<rparr>)) self
                          (\<lambda>a. a\<lparr>ad_X := Some x\<rparr>))"
  using assms by (simp add: init_storage_def class_of_arr get_set_ann Let_def)

lemma init_tables_rec:
  assumes a: "get_ann h self = Some a" "ad_X a = Some x"
    and xa: "get_arr h x = Some xa" "a_shape xa = [R, C]"
    and r1: "get_tab h r1 = Some T1" "get_dtype h (t_dtype T1) = Some n1" "t_cols T1 \<noteq> []"
            "length (t_cols T1) = length n1" "distinct n1"
            "list_all (\<lambda>c. length c = t_len T1) (t_cols T1)"
    and l1: "t_len T1 = R"
    and r2: "get_tab h r2 = Some T2" "get_dtype h (t_dtype T2) = Some n2" "t_cols T2 \<noteq> []"
            "length (t_cols T2) = length n2" "distinct n2"
            "list_all (\<lambda>c. length c = t_len T2) (t_cols T2)"
    and l2: "t_len T2 = C"
  shows "\<exists>h'. init_tables h self x (SrcRec r1) (SrcRec r2) R C = Inr ((), h')
          \<and> next_addr h' = next_addr h + 4
          \<and> frame h h' {self}
          \<and> get_ann h' self = Some (a\<lparr>ad_smp := Some (next_addr h + 1), ad_var := Some (next_addr h + 3)\<rparr>)
          \<and> get_dtype h' (next_addr h) = Some n1
          \<and> get_tab h' (next_addr h + 1) =
               Some \<lparr>t_dtype = next_addr h, t_cols = t_cols T1, t_len = R,
                     t_parent = Some (Some self), t_name_col = Some SMP_NAMES\<rparr>
          \<and> get_dtype h' (next_addr h + 2) = Some n2
          \<and> get_tab h' (next_addr h + 3) =
               Some \<lparr>t_dtype = next_addr h + 2, t_cols = t_cols T2, t_len = C,
                     t_parent = Some (Some self), t_name_col = Some VAR_NAMES\<rparr>"
proof -
  let ?n = "next_addr h"
  have lt: "self < ?n" "x < ?n" "r2 < ?n" "t_dtype T2 < ?n"
    using a xa r2 by (auto dest: get_lt)
  have pt: "py_truth h (Some self) = Inr (R \<noteq> 0)"
    using a xa by (simp add: py_truth_def AnnData_len_def)
  define tb1 where "tb1 = \<lparr>t_dtype = ?n, t_cols = t_cols T1, t_len = t_len T1,
                         t_parent = Some (Some self), t_name_col = Some SMP_NAMES\<rparr>"
  define h1 where "h1 = push (push h (ODtype n1)) (OTab tb1)"
  have B1: "BoundRecArr_new h (SrcRec r1) R SMP_NAMES (Some self) = Inr (Suc ?n, h1)"
    unfolding h1_def tb1_def by (rule BoundRecArr_new_rec[OF r1 pt])
  define h2 where "h2 = set_ann h1 self (\<lambda>a. a\<lparr>ad_smp := Some (Suc ?n)\<rparr>)"
  have n2: "next_addr h2 = ?n + 2" by (simp add: h2_def h1_def next_set_ann)
  have a2: "get_ann h2 self = Some (a\<lparr>ad_smp := Some (Suc ?n)\<rparr>)"
    using a lt by (simp add: h2_def h1_def get_set_ann get_push)
  have x2: "get_arr h2 x = Some xa" using xa lt by (simp add: h2_def h1_def get_set_ann get_push)
  have g2: "get_tab h2 r2 = Some T2" "get_dtype h2 (t_dtype T2) = Some n2"
    using r2 lt by (simp_all add: h2_def h1_def get_set_ann get_push)
  have pt2: "py_truth h2 (Some self) = Inr (R \<noteq> 0)"
    using a2 x2 a xa by (simp add: py_truth_def AnnData_len_def)
  define tb2 where "tb2 = \<lparr>t_dtype = next_addr h2, t_cols = t_cols T2, t_len = t_len T2,
                         t_parent = Some (Some self), t_name_col = Some VAR_NAMES\<rparr>"
  define h3 where "h3 = push (push h2 (ODtype n2)) (OTab tb2)"
  have B2: "BoundRecArr_new h2 (SrcRec r2) C VAR_NAMES (Some self) = Inr (Suc (next_addr h2), h3)"
    unfolding h3_def tb2_def by (rule BoundRecArr_new_rec[OF g2 r2(3-6) pt2])
  define h4 where "h4 = set_ann h3 self (\<lambda>a. a\<lparr>ad_var := Some (Suc (next_addr h2))\<rparr>)"
  have t1: "get_tab h4 (Suc ?n) = Some tb1" "get_dtype h4 ?n = Some n1"
    by (simp_all add: h4_def h3_def h2_def h1_def get_set_ann get_push next_set_ann)
  have t2: "get_tab h4 (?n + 3) = Some tb2" "get_dtype h4 (?n + 2) = Some n2"
    using n2 by (simp_all add: h4_def h3_def get_set_ann get_push)
  have x4: "get_arr h4 x = Some xa" using x2 lt n2 by (simp add: h4_def h3_def get_set_ann get_push)
  have a4: "get_ann h4 self = Some (a\<lparr>ad_smp := Some (?n + 1), ad_var := Some (?n + 3)\<rparr>)"
    using a2 lt n2 by (simp add: h4_def h3_def get_set_ann get_push)
  have cd: "check_dimensions h4 x (Suc ?n) (Suc (next_addr h2)) = Inr ((), h4)"
    using x4 xa t1 t2 n2 l1 l2 by (simp add: check_dimensions_def tb1_def tb2_def eval_nat_numeral)
  have it: "init_tables h self x (SrcRec r1) (SrcRec r2) R C = Inr ((), h4)"
    using B1 B2 cd by (simp add: init_tables_def Let_def h2_def[symmetric] h4_def[symmetric])
  have n4: "next_addr h4 = ?n + 4" using n2 by (simp add: h4_def h3_def next_set_ann)
  have fr: "frame h h4 {self}"
  proof -
    have "frame h h1 {self}" by (simp add: h1_def frame_def)
    moreover have "frame h1 h2 {self}" unfolding h2_def by (rule frame_set_ann) simp
    moreover have "frame h2 h3 {self}" by (simp add: h3_def frame_def)
    moreover have "frame h3 h4 {self}" unfolding h4_def by (rule frame_set_ann) simp
    ultimately show ?thesis by (blast intro: frame_trans)
  qed
  from it n4 fr a4 t1 t2 l1 l2 n2 show ?thesis by (simp add: tb1_def tb2_def eval_nat_numeral)
qed

lemma init_meta_dict:
  assumes a: "get_ann h self = Some a" and v: "get_dict h vd = Some vkv"
  shows "\<exists>h'. init_meta h self (Some vd) kw = Inr ((), h')
          \<and> frame h h' {self}
          \<and> get_ann h' self = Some (a\<lparr>ad_vis := Some (if vkv = [] then next_addr h else vd),
                                       ad_meta := Some (if vkv = [] then next_addr h + 1 else next_addr h)\<rparr>)
          \<and> get_dict h' (if vkv = [] then next_addr h else vd) = Some vkv
          \<and> get_dict h' (if vkv = [] then next_addr h + 1 else next_addr h) = Some kw
          \<and> next_addr h' = (if vkv = [] then next_addr h + 2 else next_addr h + 1)"
proof -
  have lt: "self < next_addr h" "vd < next_addr h" using a v by (auto dest: get_lt)
  have ne: "vd \<noteq> self" using a v by (auto simp: get_ann_def get_dict_def split: option.splits obj.splits)
  show ?thesis
  proof (cases "vkv = []")
    case True
    define h' where "h' = set_ann (push (set_ann (push h (ODict [])) self (\<lambda>a. a\<lparr>ad_vis := Some (next_addr h)\<rparr>))
                             (ODict kw)) self (\<lambda>a. a\<lparr>ad_meta := Some (Suc (next_addr h))\<rparr>)"
    have im: "init_meta h self (Some vd) kw = Inr ((), h')"
      using v True by (simp add: init_meta_def vis_or_empty_def alloc_def Let_def h'_def next_set_ann)
    moreover have "frame h h' {self}" using init_meta_Inr[OF im a lt(1)] by blast
    moreover have "get_ann h' self = Some (a\<lparr>ad_vis := Some (next_addr h), ad_meta := Some (next_addr h + 1)\<rparr>)"
      "get_dict h' (next_addr h) = Some []" "get_dict h' (next_addr h + 1) = Some kw"
      "next_addr h' = next_addr h + 2"
      using a lt by (simp_all add: h'_def get_set_ann get_push next_set_ann)
    ultimately show ?thesis using True by simp
  next
    case False
    define h' where "h' = set_ann (push (set_ann h self (\<lambda>a. a\<lparr>ad_vis := Some vd\<rparr>))
                             (ODict kw)) self (\<lambda>a. a\<lparr>ad_meta := Some (next_addr h)\<rparr>)"
    have im: "init_meta h self (Some vd) kw = Inr ((), h')"
      using v False by (simp add: init_meta_def vis_or_empty_def alloc_def Let_def h'_def next_set_ann)
    moreover have "frame h h' {self}" using init_meta_Inr[OF im a lt(1)] by blast
    moreover have "get_ann h' self = Some (a\<lparr>ad_vis := Some vd, ad_meta := Some (next_addr h)\<rparr>)"
      "get_dict h' vd = Some vkv" "get_dict h' (next_addr h) = Some kw"
      "next_addr h' = next_addr h + 1"
      using a v lt by (simp_all add: h'_def get_set_ann get_push next_set_ann)
    ultimately show ?thesis using False by simp
  qed
qed

lemma AnnData_init_rec:
  assumes xa: "get_arr h x = Some xa" "a_shape xa = [R, C]"
    and sty: "find_storage_type (a_cls xa) = Some sty"
    and r1: "get_tab h r1 = Some T1" "get_dtype h (t_dtype T1) = Some n1" "t_cols T1 \<noteq> []"
            "length (t_cols T1) = length n1" "distinct n1"
            "list_all (\<lambda>c. length c = t_len T1) (t_cols T1)"
    and l1: "t_len T1 = R"
    and r2: "get_tab h r2 = Some T2" "get_dtype h (t_dtype T2) = Some n2" "t_cols T2 \<noteq> []"
            "length (t_cols T2) = length n2" "distinct n2"
            "list_all (\<lambda>c. length c = t_len T2) (t_cols T2)"
    and l2: "t_len T2 = C"
    and v: "get_dict h vd = Some vkv"
    and p: "p = next_addr h"
  shows "\<exists>h'. AnnData_init h x (SrcRec r1) (SrcRec r2) (Some vd) kw = Inr (p, h')
          \<and> frame h h' {}
          \<and> get_arr h' x = Some xa
          \<and> get_ann h' p = Some \<lparr>ad_storage_type = Some sty, ad_X = Some x, ad_smp = Some (p + 2),
                 ad_var = Some (p + 4), ad_vis = Some (if vkv = [] then p + 5 else vd),
                 ad_meta = Some (if vkv = [] then p + 6 else p + 5)\<rparr>
          \<and> get_dtype h' (p + 1) = Some n1
          \<and> get_tab h' (p + 2) =
               Some \<lparr>t_dtype = p + 1, t_cols = t_cols T1, t_len = R,
                     t_parent = Some (Some p), t_name_col = Some SMP_NAMES\<rparr>
          \<and> get_dtype h' (p + 3) = Some n2
          \<and> get_tab h' (p + 4) =
               Some \<lparr>t_dtype = p + 3, t_cols = t_cols T2, t_len = C,
                     t_parent = Some (Some p), t_name_col = Some VAR_NAMES\<rparr>
          \<and> get_dict h' (if vkv = [] then p + 5 else vd) = Some vkv
          \<and> get_dict h' (if vkv = [] then p + 6 else p + 5) = Some kw
          \<and> next_addr h' = (if vkv = [] then p + 7 else p + 6)"
proof -
  have lt: "x < p" "r1 < p" "t_dtype T1 < p" "r2 < p" "t_dtype T2 < p" "vd < p"
    using xa r1 r2 v p by (auto dest: get_lt)
  define h1 where "h1 = push h (OAnn new_anndata)"
  define a2 where "a2 = new_anndata\<lparr>ad_storage_type := Some sty, ad_X := Some x\<rparr>"
  define h2 where "h2 = set_ann (set_ann h1 p (\<lambda>a. a\<lparr>ad_storage_type := Some sty\<rparr>)) p
                          (\<lambda>a. a\<lparr>ad_X := Some x\<rparr>)"
  have x1: "get_arr h1 x = Some xa" using xa lt p by (simp add: h1_def get_push)
  have st: "init_storage h1 p x = Inr ((R, C), h2)"
    unfolding h2_def by (rule init_storage_rank2[OF x1 xa(2) sty])
  have n2: "next_addr h2 = p + 1" by (simp add: h2_def h1_def next_set_ann p)
  have g2: "get_ann h2 p = Some a2" "ad_X a2 = Some x" "get_arr h2 x = Some xa"
    "get_tab h2 r1 = Some T1" "get_dtype h2 (t_dtype T1) = Some n1"
    "get_tab h2 r2 = Some T2" "get_dtype h2 (t_dtype T2) = Some n2" "get_dict h2 vd = Some vkv"
    using xa r1 r2 v lt p by (simp_all add: h2_def h1_def a2_def get_set_ann get_push)
  from init_tables_rec[OF g2(1,2,3) xa(2) g2(4,5) r1(3-6) l1 g2(6,7) r2(3-6) l2] n2
  obtain h3 where it: "init_tables h2 p x (SrcRec r1) (SrcRec r2) R C = Inr ((), h3)"
    and n3: "next_addr h3 = p + 5" and f23: "frame h2 h3 {p}"
    and a3: "get_ann h3 p = Some (a2\<lparr>ad_smp := Some (p + 2), ad_var := Some (p + 4)\<rparr>)"
    and t3: "get_dtype h3 (p + 1) = Some n1"
       "get_tab h3 (p + 2) = Some \<lparr>t_dtype = p + 1, t_cols = t_cols T1, t_len = R,
                     t_parent = Some (Some p), t_name_col = Some SMP_NAMES\<rparr>"
       "get_dtype h3 (p + 3) = Some n2"
       "get_tab h3 (p + 4) = Some \<lparr>t_dtype = p + 3, t_cols = t_cols T2, t_len = C,
                     t_parent = Some (Some p), t_name_col = Some VAR_NAMES\<rparr>"
    by (auto simp: eval_nat_numeral)
  have v3: "get_dict h3 vd = Some vkv" using get_dict_frame[OF f23, of vd] g2(8) lt n2 by simp
  have x3: "get_arr h3 x = Some xa" using get_arr_frame[OF f23, of x] g2(3) lt n2 by simp
  from init_meta_dict[OF a3 v3, of kw] n3
  obtain h' where im: "init_meta h3 p (Some vd) kw = Inr ((), h')" and f34: "frame h3 h' {p}"
    and a4: "get_ann h' p = Some (a2\<lparr>ad_smp := Some (p + 2), ad_var := Some (p + 4),
               ad_vis := Some (if vkv = [] then p + 5 else vd),
               ad_meta := Some (if vkv = [] then p + 6 else p + 5)\<rparr>)"
    and d4: "get_dict h' (if vkv = [] then p + 5 else vd) = Some vkv"
       "get_dict h' (if vkv = [] then p + 6 else p + 5) = Some kw"
       "next_addr h' = (if vkv = [] then p + 7 else p + 6)"
    by (auto simp: eval_nat_numeral split: if_splits)
  have init: "AnnData_init h x (SrcRec r1) (SrcRec r2) (Some vd) kw = Inr (p, h')"
    using st it im by (simp add: AnnData_init_def alloc_def h1_def[symmetric] p[symmetric])
  have f12: "frame h1 h2 {p}"
    unfolding h2_def by (intro frame_trans[OF frame_set_ann frame_set_ann]) simp_all
  have f14: "frame h1 h' {p}" using f12 f23 f34 by (blast intro: frame_trans)
  have f01: "frame h h1 {}" by (simp add: h1_def frame_def)
  have fr: "frame h h' {}" using f01 f14 p by (blast intro: frame_empty_trans)
  have t4: "get_dtype h' (p + 1) = Some n1"
       "get_tab h' (p + 2) = Some \<lparr>t_dtype = p + 1, t_cols = t_cols T1, t_len = R,
                     t_parent = Some (Some p), t_name_col = Some SMP_NAMES\<rparr>"
       "get_dtype h' (p + 3) = Some n2"
       "get_tab h' (p + 4) = Some \<lparr>t_dtype = p + 3, t_cols = t_cols T2, t_len = C,
                     t_parent = Some (Some p), t_name_col = Some VAR_NAMES\<rparr>"
    using t3 n3 get_dtype_frame[OF f34, of "p + 1"] get_dtype_frame[OF f34, of "p + 3"]
      get_tab_frame[OF f34, of "p + 2"] get_tab_frame[OF f34, of "p + 4"] by simp_all
  have x4: "get_arr h' x = Some xa" using get_arr_frame[OF f34, of x] x3 lt n3 by simp
  from init fr x4 a4 t4 d4 show ?thesis by (simp add: a2_def new_anndata_def)
qed

section \<open>Positions a selector gives, and the elements they select\<close>

lemma resolve_list_bound: "resolve_list is n = Inr ks \<Longrightarrow> list_all (\<lambda>k. k < n) ks"
proof (induction "is" arbitrary: ks)
  case Nil
  then show ?case by simp
next
  case (Cons i rest)
  then show ?case by (auto split: if_splits sum.splits)
qed

lemma resolve_list_length: "resolve_list is n = Inr ks \<Longrightarrow> length ks = length is"
  by (induction "is" arbitrary: ks) (auto split: if_splits sum.splits)

lemma div_mult_le_int: "0 < (s::int) \<Longrightarrow> a div s * s \<le> a"
proof -
  assume "0 < s"
  then have "0 \<le> a mod s" by simp
  moreover have "a div s * s = a - a mod s" by (simp add: minus_mod_eq_div_mult)
  ultimately show ?thesis by simp
qed

lemma py_range_bound:
  assumes "0 < step \<longrightarrow> 0 \<le> start \<and> stop \<le> int n"
    and "step < 0 \<longrightarrow> - 1 \<le> stop \<and> start \<le> int n - 1"
  shows "list_all (\<lambda>k. k < n) (py_range start stop step)"
proof -
  { fix k assume pos: "0 < step" "start < stop" and k: "k < nat ((stop - start - 1) div step + 1)"
    from k have "int k \<le> (stop - start - 1) div step" by linarith
    then have "int k * step \<le> (stop - start - 1) div step * step"
      using pos(1) by (simp add: mult_right_mono)
    also have "\<dots> \<le> stop - start - 1" using pos(1) by (rule div_mult_le_int)
    finally have "start + int k * step < int n" "0 \<le> start + int k * step"
      using assms pos by (auto intro: add_nonneg_nonneg mult_nonneg_nonneg)
    then have "nat (start + int k * step) < n" by linarith }
  moreover
  { fix k assume neg: "step < 0" "stop < start" and k: "k < nat ((start - stop - 1) div (- step) + 1)"
    from k have "int k \<le> (start - stop - 1) div (- step)" by linarith
    then have "int k * (- step) \<le> (start - stop - 1) div (- step) * (- step)"
      using neg(1) by (simp add: mult_right_mono)
    also have "\<dots> \<le> start - stop - 1" using neg(1) by (intro div_mult_le_int) simp
    finally have 1: "0 \<le> start + int k * step" using assms neg by (simp add: algebra_simps)
    have "int k * step \<le> 0" using neg(1) by (simp add: mult_nonneg_nonpos)
    then have "start + int k * step < int n" using assms neg by linarith
    with 1 have "nat (start + int k * step) < n" by linarith }
  ultimately show ?thesis
    by (auto simp: py_range_def list_all_iff)
qed

lemma resolve_sel_bound:
  assumes "resolve_sel s n = Inr ks"
  shows "list_all (\<lambda>k. k < n) ks"
proof (cases s)
  case (Slice a b c)
  with assms obtain start stop step where
    sa: "slice_adjust a b c (int n) = Inr (start, stop, step)" and ks: "ks = py_range start stop step"
    by (auto split: sum.splits)
  from sa have "0 < step \<longrightarrow> 0 \<le> start \<and> stop \<le> int n"
    and "step < 0 \<longrightarrow> - 1 \<le> stop \<and> start \<le> int n - 1"
    by (auto simp: slice_adjust_def Let_def split: if_splits option.splits)
  then show ?thesis unfolding ks by (rule py_range_bound)
next
  case (IdxList x2)
  with assms show ?thesis by (simp add: resolve_list_bound)
next
  case (SelName x3)
  with assms show ?thesis by simp
qed

lemma index_in_matrix: "r < R \<Longrightarrow> c < C \<Longrightarrow> r * C + c < R * (C::nat)"
proof -
  assume "r < R" "c < C"
  then have "r * C + c < r * C + C" by simp
  also have "\<dots> = Suc r * C" by simp
  also have "\<dots> \<le> R * C" using \<open>r < R\<close> by (intro mult_le_mono1) simp
  finally show ?thesis .
qed

lemma values_outer:
  assumes "list_all (\<lambda>r. r < R) rs" and "list_all (\<lambda>c. c < C) cs" and "length offs = R * C"
  shows "map (nth b) (outer_offs offs C rs cs)
         = concat (map (\<lambda>r. map (\<lambda>c. map (nth b) offs ! (r * C + c)) cs) rs)"
proof -
  have "map (nth b) offs ! (r * C + c) = b ! (offs ! (r * C + c))" if "r \<in> set rs" "c \<in> set cs" for r c
    using that assms index_in_matrix[of r R c C] by (simp add: list_all_iff)
  then show ?thesis by (simp add: outer_offs_def map_concat comp_def cong: map_cong)
qed

lemma outer_offs_in_range:
  assumes "list_all (\<lambda>r. r < R) rs" and "list_all (\<lambda>c. c < C) cs" and "length offs = R * C"
    and "list_all (\<lambda>k. k < n) offs"
  shows "list_all (\<lambda>k. k < n) (outer_offs offs C rs cs)"
proof -
  have "offs ! (r * C + c) < n" if "r \<in> set rs" "c \<in> set cs" for r c
  proof -
    from that assms have "r * C + c < length offs" using index_in_matrix[of r R c C] by (simp add: list_all_iff)
    with assms(4) show ?thesis by (simp add: list_all_length)
  qed
  then show ?thesis by (auto simp: outer_offs_def list_all_iff)
qed

lemma paired_single_row: "paired_offs offs C [r] cs = outer_offs offs C [r] cs"
proof (cases cs)
  case Nil
  then show ?thesis by (simp add: paired_offs_def outer_offs_def)
next
  case (Cons c cs')
  show ?thesis
  proof (cases cs')
    case Nil
    with Cons show ?thesis by (simp add: paired_offs_def outer_offs_def)
  next
    case (Cons c' cs'')
    have "zip (replicate (length cs) r) cs = map (Pair r) cs"
      by (induction cs) simp_all
    with \<open>cs = c # cs'\<close> Cons show ?thesis
      by (simp add: paired_offs_def outer_offs_def Let_def comp_def del: replicate.simps)
  qed
qed

section \<open>Evaluation on concrete heaps\<close>

text \<open>The closed theorems below run the model on an explicit heap: the simplifier unfolds
  the definitions, and the weak congruence rules make it evaluate the scrutinee of a
  \<open>case\<close>, \<open>if\<close> or \<open>let\<close> before it looks at the branches.\<close>

lemmas model_defs =
  py_isinstance_def StorageType_members_def classes_def SMP_NAMES_def VAR_NAMES_def
  next_addr_def objs_def push_def alloc_def store_def
  get_arr_def get_buf_def get_dtype_def get_tab_def get_dict_def get_ann_def get_val_def class_of_def
  arr_values_def slice_None_def slice_adjust_def py_range_def nonzero_def outer_offs_def paired_offs_def selected_offs_def
  broadcastable_def np_getitem2_def np_setitem2_def np_delitem2_def np_T_def arange_def np_dtype_names_def
  rec_field_def ndarray_setitem_field_def rec_getitem_def np_rec_array_def dtype_set_names_def
  append_fields_def AnnData_len_def py_truth_def source_cols_def setitem_own_field_def BoundRecArr_new_def
  columns_def setattr_table_def BoundRecArr_setitem_def check_dimensions_def find_storage_type_def
  new_anndata_def set_ann_def vis_or_empty_def init_storage_def init_tables_def init_meta_def
  AnnData_init_def init_params_def AnnData_call_def rec_fromarrays_def from_ddata_def attr_X_def attr_smp_def
  attr_var_def attr_vis_def attr_meta_def meta_items_def vis_items_def smp_names_def smp_names_set_def
  var_names_def var_names_set_def IndexMixin_unpack_index_def unpack_index_def del_iloc_def
  AnnData_delitem_def getitem_matrix_def AnnData_getitem_def AnnData_setitem_def AnnData_contains_def
  AnnData_get_def rename_field_def copy_renamed_def AnnData_transpose_def table_rows_def shape_invariant_def
  empty_heap_def new_array_def heap_2x2_def

lemmas eval_congs = if_weak_cong let_weak_cong sum.case_cong_weak option.case_cong_weak
  list.case_cong_weak prod.case_cong_weak obj.case_cong_weak index.case_cong_weak key.case_cong_weak
  sel.case_cong_weak source.case_cong_weak

lemmas example_defs = heap_masked_2x2_def heap_sparse_2x2_def heap_list_def heap_rank1_def storage_type_of_def

lemmas example_defs2 = smp_setitem_def var_setitem_def smp_columns_def var_columns_def heap_0x2_def

lemmas run = model_defs example_defs example_defs2 Let_def enumerate_eq_zip upt_rec


section \<open>Claims\<close>

lemma from_ddata_shape_invariant:
  assumes "from_ddata h (Some x) rn cn kw = Inr (p, h')"
  shows "shape_invariant h' p"
proof -
  from assms obtain h2 sa va vis kw' where c: "AnnData_init h2 x sa va vis kw' = Inr (p, h')"
    by (auto simp: from_ddata_def rec_fromarrays_def alloc_def Let_def split: option.splits prod.splits)
  then show ?thesis by (rule AnnData_init_Inr(8))
qed

text \<open>
  C1 (shape invariant). Every instance a public operation builds satisfies the shape
  invariant in the heap the operation leaves: the instance returned by the
  constructor, by \<^verbatim>\<open>from_ddata\<close>, by slicing with any index, and by transpose. The row
  table then has as many rows as the storage, the column table as many rows as the
  storage has columns, and every column of a table has the table's length.
\<close>

theorem shape_invariant_of_every_construction:
  "(\<forall>p h'. AnnData_init h x smp_arg var_arg vis_arg meta_kw = Inr (p, h') \<longrightarrow> shape_invariant h' p)
   \<and> (\<forall>p h'. from_ddata h (Some x) rownames colnames meta_kw = Inr (p, h') \<longrightarrow> shape_invariant h' p)
   \<and> (\<forall>p h'. AnnData_getitem h self index = Inr (GotAnn p, h') \<longrightarrow> shape_invariant h' p)
   \<and> (\<forall>p h'. AnnData_transpose h self = Inr (p, h') \<longrightarrow> shape_invariant h' p)"
proof (intro conjI impI allI)
  fix p h'
  assume "AnnData_init h x smp_arg var_arg vis_arg meta_kw = Inr (p, h')"
  then show "shape_invariant h' p" by (rule AnnData_init_Inr(8))
next
  fix p h'
  assume "from_ddata h (Some x) rownames colnames meta_kw = Inr (p, h')"
  then show "shape_invariant h' p" by (rule from_ddata_shape_invariant)
next
  fix p h'
  assume "AnnData_getitem h self index = Inr (GotAnn p, h')"
  then show "shape_invariant h' p" by (rule AnnData_getitem_shape)
next
  fix p h'
  assume "AnnData_transpose h self = Inr (p, h')"
  then show "shape_invariant h' p" by (rule AnnData_transpose_shape)
qed

theorem shape_invariant_of_every_construction_witness:
  "\<exists>p h'. AnnData_init heap_2x2 1 SrcNone SrcNone None [] = Inr (p, h') \<and> shape_invariant h' p
      \<and> (\<exists>q h''. AnnData_getitem h' p (IPair (KInt 0) (KSlice None None None)) = Inr (GotAnn q, h'')
             \<and> shape_invariant h'' q)
      \<and> (\<exists>q h''. AnnData_transpose h' p = Inr (q, h'') \<and> shape_invariant h'' q)"
proof -
  have ev: "(case AnnData_init heap_2x2 1 SrcNone SrcNone None [] of
               Inl eh \<Rightarrow> False
             | Inr (p, h') \<Rightarrow>
                 (case AnnData_getitem h' p (IPair (KInt 0) (KSlice None None None)) of
                    Inr (GotAnn q, h'') \<Rightarrow> True | other \<Rightarrow> False)
               \<and> (case AnnData_transpose h' p of Inr (q, h'') \<Rightarrow> True | other \<Rightarrow> False))"
    by (simp add: model_defs Let_def enumerate_eq_zip upt_rec cong: eval_congs)
  then obtain p h' where i: "AnnData_init heap_2x2 1 SrcNone SrcNone None [] = Inr (p, h')"
    by (auto split: sum.splits)
  from ev i obtain q1 h1 where
    g: "AnnData_getitem h' p (IPair (KInt 0) (KSlice None None None)) = Inr (GotAnn q1, h1)"
    by (auto split: sum.splits getres.splits)
  from ev i obtain q2 h2 where t: "AnnData_transpose h' p = Inr (q2, h2)"
    by (auto split: sum.splits)
  note inv = shape_invariant_of_every_construction
  from inv[of heap_2x2 1 SrcNone SrcNone None "[]"] i have s0: "shape_invariant h' p" by blast
  from inv[of h' 0 SrcNone SrcNone None "[]" None None p "IPair (KInt 0) (KSlice None None None)"] g
  have s1: "shape_invariant h1 q1" by blast
  from inv[of h' 0 SrcNone SrcNone None "[]" None None p "IPair (KInt 0) (KSlice None None None)"] t
  have s2: "shape_invariant h2 q2" by blast
  from i s0 g s1 t s2 show ?thesis by blast
qed

text \<open>
  C2 (storage kind). The loop of lines 139-142 takes the first member of the enumeration
  whose class the input is an instance of, in the order Array, Masked, Sparse. A masked
  array is an \<^verbatim>\<open>ndarray\<close> too, so it is recorded as \<open>Array\<close>; no input is ever recorded as
  \<open>Masked\<close>. The dense array, the sparse matrix and the plain list behave as claimed.
\<close>

lemma find_storage_type_cases:
  "find_storage_type NdArray = Some Array"
  "find_storage_type MaskedArray = Some Array"
  "find_storage_type NpMatrix = Some Array"
  "find_storage_type SpMatrix = Some Sparse"
  "find_storage_type PyList = None"
  by (simp_all add: find_storage_type_def StorageType_members_def py_isinstance_def)

lemma find_storage_type_never_Masked: "find_storage_type c \<noteq> Some Masked"
  by (cases c) (simp_all add: find_storage_type_def StorageType_members_def py_isinstance_def)

lemma storage_type_of_init:
  assumes "AnnData_init h x sa va vis kw = Inr (p, h')" and "get_arr h x = Some xa"
  shows "storage_type_of h' p = find_storage_type (a_cls xa)"
  using AnnData_init_Inr(2)[OF assms(1)] assms(2) by (auto simp: storage_type_of_def)

lemma unsupported_type_is_rejected:
  assumes "objs h x = Some (OPy c)" and "find_storage_type c = None"
  shows "AnnData_init h x sa va vis kw
         = Inl (ValueError_data_type c [''ndarray'', ''MaskedArray'', ''spmatrix''], push h (OAnn new_anndata))"
proof -
  have "x < next_addr h" using assms(1) by (rule objs_Some_lt)
  then have "class_of (push h (OAnn new_anndata)) x = c"
    using assms(1) by (simp add: class_of_def)
  then show ?thesis using assms(2)
    by (simp add: AnnData_init_def alloc_def init_storage_def classes_def StorageType_members_def)
qed

theorem masked_array_is_classified_as_Array:
  "(case AnnData_init heap_masked_2x2 1 SrcNone SrcNone None [] of
      Inl eh \<Rightarrow> None
    | Inr (p, h') \<Rightarrow> storage_type_of h' p) = Some Array"
  by (simp add: model_defs example_defs Let_def enumerate_eq_zip upt_rec cong: eval_congs)

lemma storage_kinds_of_the_other_inputs:
  "(case AnnData_init heap_2x2 1 SrcNone SrcNone None [] of
      Inl eh \<Rightarrow> None | Inr (p, h') \<Rightarrow> storage_type_of h' p) = Some Array"
  "(case AnnData_init heap_sparse_2x2 1 SrcNone SrcNone None [] of
      Inl eh \<Rightarrow> None | Inr (p, h') \<Rightarrow> storage_type_of h' p) = Some Sparse"
  "(case AnnData_init heap_list 0 SrcNone SrcNone None [] of
      Inl (e, h') \<Rightarrow> Some e | Inr r \<Rightarrow> None)
     = Some (ValueError_data_type PyList [''ndarray'', ''MaskedArray'', ''spmatrix''])"
  by (simp_all add: model_defs example_defs Let_def enumerate_eq_zip upt_rec cong: eval_congs)

text \<open>
  C8 (deletion). \<^verbatim>\<open>del M[index]\<close> raises for every instance and every index, at line 215
  if not before, and leaves every object as it was: nothing is deleted from the
  storage or from a table. On the 2 x 2 array of the tests, \<^verbatim>\<open>del M[0, :]\<close> is numpy's
  \<^verbatim>\<open>ValueError: cannot delete array elements\<close>.
\<close>

lemma AnnData_delitem_raises: "\<exists>e. AnnData_delitem h self index = Inl (e, h)"
proof -
  obtain smp var where u: "unpack_index index = (smp, var)" by (cases "unpack_index index")
  show ?thesis
  proof (cases "attr_X h self")
    case (Inl e)
    with u show ?thesis by (simp add: AnnData_delitem_def)
  next
    case (Inr x)
    have "\<exists>e. np_delitem2 h x smp var = Inl (e, h)"
      by (simp add: np_delitem2_def split: option.splits)
    with u Inr show ?thesis by (auto simp: AnnData_delitem_def)
  qed
qed

theorem delitem_raises_and_deletes_nothing:
  "(\<exists>e. AnnData_delitem h self index = Inl (e, h))
   \<and> (case AnnData_init heap_2x2 1 SrcNone SrcNone None [] of
        Inl eh \<Rightarrow> False
      | Inr (m, h1) \<Rightarrow>
          AnnData_delitem h1 m (IPair (KInt 0) (KSlice None None None)) = Inl (ValueError_cannot_delete, h1))"
proof
  show "\<exists>e. AnnData_delitem h self index = Inl (e, h)" by (rule AnnData_delitem_raises)
  show "case AnnData_init heap_2x2 1 SrcNone SrcNone None [] of
        Inl eh \<Rightarrow> False
      | Inr (m, h1) \<Rightarrow>
          AnnData_delitem h1 m (IPair (KInt 0) (KSlice None None None)) = Inl (ValueError_cannot_delete, h1)"
    by (simp add: model_defs Let_def enumerate_eq_zip upt_rec cong: eval_congs)
qed

text \<open>
  C9 (rank-1 storage). When the constructor is given a rank-1 array of length \<open>L\<close> and
  returns, the array object the caller passed is the \<^verbatim>\<open>X\<close> of the new instance and has
  shape \<open>(L, 1)\<close>; it still reads the same buffer through the same offsets, and the
  buffer holds what it held: the reshape is in place, with no copy.
\<close>

lemma arr_values_reshape:
  "get_arr h x = Some xa \<Longrightarrow> get_arr h' x = Some (xa\<lparr>a_shape := sh\<rparr>)
   \<Longrightarrow> get_buf h' (a_buf xa) = get_buf h (a_buf xa) \<Longrightarrow> arr_values h' x = arr_values h x"
  by (simp add: arr_values_def split: option.splits)

theorem rank1_storage_is_reshaped_in_place:
  "get_arr h x = Some xa \<and> a_shape xa = [L] \<and> get_buf h (a_buf xa) = Some b \<longrightarrow>
     (\<forall>p h'. AnnData_init h x smp_arg var_arg vis_arg meta_kw = Inr (p, h') \<longrightarrow>
        get_arr h' x = Some (xa\<lparr>a_shape := [L, 1]\<rparr>) \<and> attr_X h' p = Inr x
        \<and> get_buf h' (a_buf xa) = Some b \<and> arr_values h' x = arr_values h x)"
proof (intro impI allI, elim conjE)
  fix p h'
  assume xa: "get_arr h x = Some xa" and sh: "a_shape xa = [L]" and b: "get_buf h (a_buf xa) = Some b"
    and i: "AnnData_init h x smp_arg var_arg vis_arg meta_kw = Inr (p, h')"
  from AnnData_init_Inr(2)[OF i] xa sh have 1: "get_arr h' x = Some (xa\<lparr>a_shape := [L, 1]\<rparr>)"
    and 2: "attr_X h' p = Inr x" by (auto simp: attr_X_def)
  have fr: "frame h h' {x}" using i by (rule AnnData_init_Inr(7))
  have "a_buf xa < next_addr h" using b by (rule get_lt)
  moreover have "a_buf xa \<noteq> x"
    using b xa by (auto simp: get_buf_def get_arr_def split: option.splits obj.splits)
  ultimately have 3: "get_buf h' (a_buf xa) = get_buf h (a_buf xa)"
    using get_buf_frame[OF fr] by simp
  from 1 2 3 b arr_values_reshape[OF xa 1 3]
  show "get_arr h' x = Some (xa\<lparr>a_shape := [L, 1]\<rparr>) \<and> attr_X h' p = Inr x
        \<and> get_buf h' (a_buf xa) = Some b \<and> arr_values h' x = arr_values h x" by simp
qed

theorem rank1_storage_is_reshaped_in_place_witness:
  "get_arr heap_rank1 1 = Some \<lparr>a_cls = NdArray, a_shape = [3], a_buf = 0, a_offs = [0, 1, 2], a_names = None\<rparr>
   \<and> get_buf heap_rank1 0 = Some [IntV 7, IntV 8, IntV 9]
   \<and> (\<exists>p h'. AnnData_init heap_rank1 1 SrcNone SrcNone None [] = Inr (p, h')
        \<and> get_arr h' 1 = Some \<lparr>a_cls = NdArray, a_shape = [3, 1], a_buf = 0, a_offs = [0, 1, 2], a_names = None\<rparr>
        \<and> attr_X h' p = Inr 1
        \<and> get_buf h' 0 = Some [IntV 7, IntV 8, IntV 9]
        \<and> arr_values h' 1 = arr_values heap_rank1 1)"
proof -
  let ?xa = "\<lparr>a_cls = NdArray, a_shape = [3], a_buf = 0, a_offs = [0, 1, 2], a_names = None\<rparr>"
  have g: "get_arr heap_rank1 1 = Some ?xa" and b: "get_buf heap_rank1 0 = Some [IntV 7, IntV 8, IntV 9]"
    by (simp_all add: model_defs example_defs upt_rec)
  have "case AnnData_init heap_rank1 1 SrcNone SrcNone None [] of Inl eh \<Rightarrow> False | Inr r \<Rightarrow> True"
    by (simp add: model_defs example_defs Let_def enumerate_eq_zip upt_rec cong: eval_congs)
  then obtain p h' where i: "AnnData_init heap_rank1 1 SrcNone SrcNone None [] = Inr (p, h')"
    by (auto split: sum.splits)
  from rank1_storage_is_reshaped_in_place[of heap_rank1 1 ?xa 3 "[IntV 7, IntV 8, IntV 9]" SrcNone SrcNone None "[]"]
    g b i
  have "get_arr h' 1 = Some (?xa\<lparr>a_shape := [3, 1]\<rparr>) \<and> attr_X h' p = Inr 1
        \<and> get_buf h' 0 = Some [IntV 7, IntV 8, IntV 9] \<and> arr_values h' 1 = arr_values heap_rank1 1"
    by simp
  with g b i show ?thesis by simp
qed

text \<open>
  C5 (appending a column). Line 69 tests \<^verbatim>\<open>self._parent\<close> for truth, and an AnnData is
  true only when it has a row. On an owner with no row and two columns, the column
  table therefore takes line 80 for \<^verbatim>\<open>M.var['new'] = [1, 2]\<close>: numpy refuses the unknown
  field and nothing is appended. The same assignment on an owner with a row appends.
\<close>

theorem new_column_on_empty_owner:
  "(case AnnData_init heap_0x2 1 SrcNone SrcNone None [] of
      Inl eh \<Rightarrow> False
    | Inr (m, h) \<Rightarrow>
        AnnData_len h m = Inr 0
      \<and> var_names h m = Inr [IntV 0, IntV 1]
      \<and> var_setitem h m ''new'' [IntV 1, IntV 2] = Inl (ValueError_no_field ''new'', h))"
  by (simp add: run cong: eval_congs)

lemma new_column_on_owner_with_rows:
  "(case AnnData_init heap_2x2 1 SrcNone SrcNone None [] of
      Inl eh \<Rightarrow> False
    | Inr (m, h) \<Rightarrow>
        (case smp_setitem h m ''new'' [IntV 1, IntV 2] of
           Inl eh \<Rightarrow> False
         | Inr (u, h1) \<Rightarrow> smp_columns h1 m = Inr [''new''] \<and> smp_names h1 m = Inr [IntV 0, IntV 1]
              \<and> (case attr_smp h1 m of Inl e \<Rightarrow> False | Inr t \<Rightarrow> rec_field h1 t ''new'' = Inr [IntV 1, IntV 2]))
      \<and> smp_setitem h m ''new2'' [IntV 1, IntV 2, IntV 3] = Inl (ValueError_too_many_entries 3 2, h))"
  by (simp add: run cong: eval_congs)

text \<open>
  C4 (too long a column). On the same owner with no row, \<^verbatim>\<open>M.var['new2'] = [1, 2, 3]\<close>
  does not reach the check of lines 72-74: it fails at line 80 with numpy's error for an
  unknown field, and leaves the heap as it was.
\<close>

theorem too_long_column_on_empty_owner:
  "(case AnnData_init heap_0x2 1 SrcNone SrcNone None [] of
      Inl eh \<Rightarrow> False
    | Inr (m, h) \<Rightarrow>
        AnnData_len h m = Inr 0
      \<and> var_columns h m = Inr []
      \<and> var_setitem h m ''new2'' [IntV 1, IntV 2, IntV 3] = Inl (ValueError_no_field ''new2'', h))"
  by (simp add: run cong: eval_congs)

text \<open>
  C10 (tables of a slice). The slice \<^verbatim>\<open>S = M[0:0, :]\<close> of the 2 x 2 array has no row, so
  \<^verbatim>\<open>S.var['new'] = [1, 2]\<close> takes line 80 and nothing is written to a slot of \<open>S\<close>.
\<close>

theorem new_column_on_empty_slice:
  "(case AnnData_init heap_2x2 1 SrcNone SrcNone None [] of
      Inl eh \<Rightarrow> False
    | Inr (m, h) \<Rightarrow>
        (case AnnData_getitem h m (IPair (KSlice (Some 0) (Some 0) None) (KSlice None None None)) of
           Inr (GotAnn s, h1) \<Rightarrow>
               AnnData_len h1 s = Inr 0
             \<and> var_names h1 s = Inr [IntV 0, IntV 1]
             \<and> var_setitem h1 s ''new'' [IntV 1, IntV 2] = Inl (ValueError_no_field ''new'', h1)
         | other \<Rightarrow> False))"
  by (simp add: run cong: eval_congs)

text \<open>
  C7 (transpose and its source). \<^verbatim>\<open>np.rec.array(self.var)\<close> copies the data of the table
  and keeps its dtype object, and lines 253-254 and 256-257 assign the names of that
  object: after \<^verbatim>\<open>M.T\<close> the column table of \<open>M\<close> has the field \<^verbatim>\<open>smp_names\<close> in place of
  \<^verbatim>\<open>var_names\<close> and its row table \<^verbatim>\<open>var_names\<close> in place of \<^verbatim>\<open>smp_names\<close>, so \<^verbatim>\<open>M.var_names\<close>
  and \<^verbatim>\<open>M.smp_names\<close> raise and the renamed fields show up in \<^verbatim>\<open>columns\<close>.
\<close>

theorem transpose_renames_the_fields_of_its_source:
  "(case AnnData_init heap_2x2 1 SrcNone SrcNone None [] of
      Inl eh \<Rightarrow> False
    | Inr (m, h) \<Rightarrow>
        var_names h m = Inr [IntV 0, IntV 1] \<and> smp_names h m = Inr [IntV 0, IntV 1]
      \<and> var_columns h m = Inr [] \<and> smp_columns h m = Inr []
      \<and> (case AnnData_transpose h m of
            Inl eh \<Rightarrow> False
          | Inr (t, h1) \<Rightarrow>
              var_names h1 m = Inl (ValueError_no_field ''var_names'')
            \<and> smp_names h1 m = Inl (ValueError_no_field ''smp_names'')
            \<and> var_columns h1 m = Inr [''smp_names''] \<and> smp_columns h1 m = Inr [''var_names'']))"
  by (simp add: run cong: eval_congs)




end
